theory Spec2Isabelle
  imports Main
begin

section \<open>Data model\<close>

text \<open>
  The program is the Python script \<^verbatim>\<open>cloudwatch.py\<close> with its library \<^verbatim>\<open>libs.py\<close>. It reads
  a server log, rebuilds the multi-line log entries, groups them into batches and posts
  the batches to AWS CloudWatch.

  A Python \<^verbatim>\<open>str\<close> is modelled as a \<open>string\<close> in which every \<open>char\<close> is one character of
  the \<^verbatim>\<open>str\<close> (a code point below 256), so that \<open>length\<close> is Python's \<^verbatim>\<open>len\<close>. Python's
  unbounded \<^verbatim>\<open>int\<close> is \<open>int\<close>, or \<open>nat\<close> for the counters that start at zero and only grow.
  Assertions are modelled as enabled, as they are unless the interpreter runs with \<^verbatim>\<open>-O\<close>.
\<close>

text \<open>
  A log event is the dictionary \<^verbatim>\<open>{"timestamp": int, "message": str}\<close> that
  \<^verbatim>\<open>generate_dicts\<close> builds and \<^verbatim>\<open>put_log_events\<close> receives.
\<close>

record event =
  timestamp :: int
  message :: string

text \<open>
  The exceptions the modelled code can raise. \<open>CurrentDictNone\<close> is
  \<^verbatim>\<open>ValueError("currentDict should not be None.")\<close> of \<^verbatim>\<open>generate_dicts\<close>, \<open>StrptimeError\<close>
  the \<^verbatim>\<open>ValueError\<close> that \<^verbatim>\<open>strptime\<close> raises on a time that does not exist,
  \<open>AssertionError\<close> a failed \<^verbatim>\<open>assert\<close>, and \<open>LibraryError\<close> an exception raised inside a
  library call (opening a file, a request to AWS, an unknown time zone, a date that does
  not parse), with the library's description of it.
\<close>

datatype error = CurrentDictNone | StrptimeError | AssertionError | LibraryError string

section \<open>The batch planner: \<^verbatim>\<open>create_batches\<close> and \<^verbatim>\<open>test_batches\<close>\<close>

definition EVENT_OVERHEAD :: nat where
  "EVENT_OVERHEAD = 26"

definition MAX_BYTES :: nat where
  "MAX_BYTES = 1048576"

definition MAX_EVENTS :: nat where
  "MAX_EVENTS = 10000"

text \<open>The slice \<^verbatim>\<open>xs[a:b]\<close> for indices that are not negative; it is empty when \<open>b \<le> a\<close>.\<close>

definition slice :: "'a list \<Rightarrow> nat \<Rightarrow> nat \<Rightarrow> 'a list" where
  "slice xs a b = take (b - a) (drop a xs)"

text \<open>The variables of the loop of \<^verbatim>\<open>create_batches\<close>.\<close>

record batch_state =
  batches :: "event list list"
  start_pos :: nat
  num_events :: nat
  cumulative_size :: nat

text \<open>
  One iteration of \<^verbatim>\<open>for idx, val in enumerate(events)\<close>. The test for the last event
  comes first, as in the source: the last event closes the open batch with no look at the
  two limits.
\<close>

definition batch_step :: "event list \<Rightarrow> batch_state \<Rightarrow> nat \<times> event \<Rightarrow> batch_state" where
  "batch_step events st iv =
     (case iv of (idx, val) \<Rightarrow>
        let n = num_events st + 1;
            size = length (message val) + EVENT_OVERHEAD
        in if idx + 1 = length events then
             st\<lparr>batches := batches st @ [drop (start_pos st) events], num_events := n\<rparr>
           else if n > MAX_EVENTS \<or> cumulative_size st + size > MAX_BYTES then
             st\<lparr>batches := batches st @ [slice events (start_pos st) idx],
                start_pos := idx, num_events := 1, cumulative_size := size\<rparr>
           else
             st\<lparr>num_events := n, cumulative_size := cumulative_size st + size\<rparr>)"

text \<open>The batches as the loop leaves them, before \<^verbatim>\<open>test_batches\<close> looks at them.\<close>

definition constructed_batches :: "event list \<Rightarrow> event list list" where
  "constructed_batches events =
     batches (foldl (batch_step events)
       \<lparr>batches = [], start_pos = 0, num_events = 0, cumulative_size = 0\<rparr>
       (enumerate 0 events))"

text \<open>
  The assertions \<^verbatim>\<open>test_batches\<close> makes on one batch. The two \<^verbatim>\<open>isinstance\<close> assertions
  hold by the type of \<open>event\<close>. The size of a message is \<^verbatim>\<open>len(event['message'])\<close>.
\<close>

definition test_batch :: "nat \<Rightarrow> nat \<Rightarrow> nat \<Rightarrow> event list \<Rightarrow> bool" where
  "test_batch event_overhead max_bytes max_events batch =
     (length batch \<le> max_events \<and>
      (let sum_bytes = foldl (\<lambda>s ev. s + (length (message ev) + event_overhead)) 0 batch;
           sum_events = foldl (\<lambda>n ev. n + 1) 0 batch
       in sum_bytes \<le> max_bytes \<and> sum_events \<le> max_events \<and> sum_events = length batch))"

text \<open>\<^verbatim>\<open>test_batches\<close> returns nothing; it raises \<^verbatim>\<open>AssertionError\<close> when an assertion fails.\<close>

definition test_batches ::
  "event list list \<Rightarrow> nat \<Rightarrow> nat \<Rightarrow> nat \<Rightarrow> nat \<Rightarrow> error + unit" where
  "test_batches bs total_num_events event_overhead max_bytes max_events =
     (if list_all (test_batch event_overhead max_bytes max_events) bs \<and>
         foldl (\<lambda>total_events batch. total_events + length batch) 0 bs = total_num_events
      then Inr () else Inl AssertionError)"

definition create_batches :: "event list \<Rightarrow> error + event list list" where
  "create_batches events =
     (let bs = constructed_batches events
      in case test_batches bs (length events) EVENT_OVERHEAD MAX_BYTES MAX_EVENTS of
           Inl e \<Rightarrow> Inl e
         | Inr _ \<Rightarrow> Inr bs)"

text \<open>
  The size of a batch as \<^verbatim>\<open>test_batches\<close> counts it in \<^verbatim>\<open>sum_bytes\<close>: the \<^verbatim>\<open>len\<close> of each
  message, which is its number of bytes when the text is ASCII, plus the overhead of each
  event.
\<close>

definition batch_size :: "event list \<Rightarrow> nat" where
  "batch_size batch = (\<Sum>ev\<leftarrow>batch. length (message ev) + EVENT_OVERHEAD)"

text \<open>
  The number of bytes of the UTF-8 encoding of a text, the measure of the limit of the
  service, which the comment above \<^verbatim>\<open>generate_dicts\<close> quotes: the sum of all event messages
  in UTF-8, plus 26 bytes for each log event. A code point below 128 takes one byte, one
  from 128 to 255 takes two. \<open>batch_bytes\<close> is the size of a batch in that measure.
\<close>

definition utf8_length :: "string \<Rightarrow> nat" where
  "utf8_length s = (\<Sum>c\<leftarrow>s. if (of_char c :: nat) < 128 then 1 else 2)"

definition batch_bytes :: "event list \<Rightarrow> nat" where
  "batch_bytes batch = (\<Sum>ev\<leftarrow>batch. utf8_length (message ev) + EVENT_OVERHEAD)"

text \<open>
  The invariant of the loop: before the event at \<open>idx\<close> is read, the closed batches hold
  the events before \<open>start_pos\<close>; once the last event has been read, they hold them all.
\<close>

definition batch_inv :: "event list \<Rightarrow> nat \<Rightarrow> batch_state \<Rightarrow> bool" where
  "batch_inv events idx st \<longleftrightarrow>
     (concat (batches st) = take (start_pos st) events \<and> start_pos st \<le> idx \<and> idx < length events)
     \<or> (concat (batches st) = events \<and> idx = length events)"

section \<open>The record reconstructor: \<^verbatim>\<open>matchDate\<close> and \<^verbatim>\<open>generate_dicts\<close>\<close>

text \<open>The value of \<^verbatim>\<open>datetime.time\<close>.\<close>

record time_of_day =
  hour :: nat
  minute :: nat
  second :: nat
  microsecond :: nat

text \<open>
  The regular expression of \<^verbatim>\<open>matchDate\<close> is a sequence of classes of one character each:
  \<^verbatim>\<open>\d\<close>, \<^verbatim>\<open>\s\<close> and literal characters. Below code point 256 the decimal digits of
  Unicode are \<^verbatim>\<open>0\<close> to \<^verbatim>\<open>9\<close>, and its white space is the ASCII white space, the four
  separators 28 to 31, NEL (133) and the no-break space (160).
\<close>

datatype char_class = Digit | Space | Lit char

definition is_digit :: "char \<Rightarrow> bool" where
  "is_digit c \<longleftrightarrow> 48 \<le> (of_char c :: nat) \<and> (of_char c :: nat) \<le> 57"

definition is_space :: "char \<Rightarrow> bool" where
  "is_space c \<longleftrightarrow> (of_char c :: nat) \<in> {9, 10, 11, 12, 13, 28, 29, 30, 31, 32, 133, 160}"

fun class_match :: "char_class \<Rightarrow> char \<Rightarrow> bool" where
  "class_match Digit c = is_digit c"
| "class_match Space c = is_space c"
| "class_match (Lit l) c = (c = l)"

text \<open>
  \<^verbatim>\<open>re.match\<close> for such a pattern: the matched text at the start of the line
  (\<^verbatim>\<open>matched.group()\<close>), or \<open>None\<close>.
\<close>

fun re_match :: "char_class list \<Rightarrow> string \<Rightarrow> string option" where
  "re_match [] s = Some []"
| "re_match (p # ps) [] = None"
| "re_match (p # ps) (c # cs) =
     (if class_match p c then map_option ((#) c) (re_match ps cs) else None)"

text \<open>The pattern \<^verbatim>\<open>^\d{2}:\d{2}:\d{2},\d{3}\s\<close>.\<close>

definition timestamp_pattern :: "char_class list" where
  "timestamp_pattern =
     [Digit, Digit, Lit CHR '':'', Digit, Digit, Lit CHR '':'', Digit, Digit, Lit CHR '','',
      Digit, Digit, Digit, Space]"

text \<open>\<^verbatim>\<open>str.strip()\<close>: white space removed at both ends.\<close>

definition strip :: "string \<Rightarrow> string" where
  "strip s = rev (dropWhile is_space (rev (dropWhile is_space s)))"

definition digit_value :: "char \<Rightarrow> nat" where
  "digit_value c = of_char c - 48"

definition int_of_digits :: "string \<Rightarrow> nat" where
  "int_of_digits s = foldl (\<lambda>n c. 10 * n + digit_value c) 0 s"

text \<open>
  \<^verbatim>\<open>datetime.strptime(s, "%H:%M:%S,%f").time()\<close> on a text of the shape
  \<^verbatim>\<open>DD:DD:DD,DDD\<close>, the only texts \<^verbatim>\<open>matchDate\<close> passes to it. The call raises
  \<^verbatim>\<open>ValueError\<close> unless the hour is at most 23 and minute and second at most 59; three
  digits of \<^verbatim>\<open>%f\<close> are milliseconds, stored as microseconds.
\<close>

definition strptime_time :: "string \<Rightarrow> error + time_of_day" where
  "strptime_time s =
     (let h = int_of_digits (slice s 0 2);
          m = int_of_digits (slice s 3 5);
          sec = int_of_digits (slice s 6 8);
          f = int_of_digits (slice s 9 12)
      in if h \<le> 23 \<and> m \<le> 59 \<and> sec \<le> 59
         then Inr \<lparr>hour = h, minute = m, second = sec, microsecond = f * 1000\<rparr>
         else Inl StrptimeError)"

definition matchDate :: "string \<Rightarrow> error + (bool \<times> time_of_day option)" where
  "matchDate line =
     (case re_match timestamp_pattern line of
        None \<Rightarrow> Inr (False, None)
      | Some matched \<Rightarrow>
          (case strptime_time (strip matched) of
             Inl e \<Rightarrow> Inl e
           | Inr parsed_time \<Rightarrow> Inr (True, Some parsed_time)))"

definition rem_opt :: "'a option \<Rightarrow> error + 'a" where
  "rem_opt arg = (case arg of None \<Rightarrow> Inl AssertionError | Some x \<Rightarrow> Inr x)"

definition SKIP_CHARS :: nat where
  "SKIP_CHARS = 13"

text \<open>
  A generator is modelled by what it yields, in order, and the exception that ends it,
  if one does. \<open>yield_if\<close> is \<^verbatim>\<open>if currentDict: yield currentDict\<close> in front of the rest of
  the run; a dictionary with its two keys is true.
\<close>

definition yield_if :: "event option \<Rightarrow> event list \<times> error option \<Rightarrow> event list \<times> error option" where
  "yield_if currentDict r = (case currentDict of None \<Rightarrow> r | Some cd \<Rightarrow> (cd # fst r, snd r))"

text \<open>
  The loop of \<^verbatim>\<open>generate_dicts\<close> from a state \<open>currentDict\<close>, \<open>line_num\<close> over the lines
  still to read. \<open>to_utc\<close> stands for \<^verbatim>\<open>local_to_utc_timestamp\<close>, which is library calls only
  (\<^verbatim>\<open>zoneinfo\<close> and a floating-point product); \<open>'d\<close> is \<^verbatim>\<open>datetime.date\<close> and \<open>'tz\<close> is
  \<^verbatim>\<open>ZoneInfo\<close>.
\<close>

fun generate_loop ::
  "('d \<Rightarrow> time_of_day \<Rightarrow> 'tz \<Rightarrow> int) \<Rightarrow> 'd \<Rightarrow> int \<Rightarrow> 'tz \<Rightarrow> event option \<Rightarrow> int \<Rightarrow> string list
     \<Rightarrow> event list \<times> error option" where
  "generate_loop to_utc date_of_log_entries skip_num_entries tzinfo currentDict line_num [] =
     yield_if currentDict ([], None)"
| "generate_loop to_utc date_of_log_entries skip_num_entries tzinfo currentDict line_num (line # rest) =
     (case matchDate line of
        Inl e \<Rightarrow> ([], Some e)
      | Inr (matched, parsed_time) \<Rightarrow>
          if matched then
            if line_num + 1 \<le> skip_num_entries then
              generate_loop to_utc date_of_log_entries skip_num_entries tzinfo
                currentDict (line_num + 1) rest
            else
              yield_if currentDict
                (case rem_opt parsed_time of
                   Inl e \<Rightarrow> ([], Some e)
                 | Inr t \<Rightarrow>
                     generate_loop to_utc date_of_log_entries skip_num_entries tzinfo
                       (Some \<lparr>timestamp = to_utc date_of_log_entries t tzinfo,
                              message = drop SKIP_CHARS line\<rparr>)
                       (line_num + 1) rest)
          else if line_num \<le> skip_num_entries then
            generate_loop to_utc date_of_log_entries skip_num_entries tzinfo
              currentDict line_num rest
          else
            (case currentDict of
               None \<Rightarrow> ([], Some CurrentDictNone)
             | Some cd \<Rightarrow>
                 generate_loop to_utc date_of_log_entries skip_num_entries tzinfo
                   (Some (cd\<lparr>message := message cd @ line\<rparr>)) line_num rest))"

text \<open>\<open>log_fh\<close> is the text file as the lines its iteration gives.\<close>

definition generate_dicts ::
  "('d \<Rightarrow> time_of_day \<Rightarrow> 'tz \<Rightarrow> int) \<Rightarrow> string list \<Rightarrow> 'd \<Rightarrow> int \<Rightarrow> 'tz
     \<Rightarrow> event list \<times> error option" where
  "generate_dicts to_utc log_fh date_of_log_entries skip_num_entries tzinfo =
     generate_loop to_utc date_of_log_entries skip_num_entries tzinfo None 0 log_fh"

text \<open>\<^verbatim>\<open>list(...)\<close> of a generator: the records, or the exception that ended it.\<close>

definition list_of_generator :: "'a list \<times> error option \<Rightarrow> error + 'a list" where
  "list_of_generator g = (case snd g of None \<Rightarrow> Inr (fst g) | Some e \<Rightarrow> Inl e)"

text \<open>A line that opens a record: the pattern matches at its start.\<close>

definition is_timestamp_line :: "string \<Rightarrow> bool" where
  "is_timestamp_line line \<longleftrightarrow> re_match timestamp_pattern line \<noteq> None"

text \<open>
  The records that the lines of a stream describe, in the words of the specification: a
  line that matches the pattern and holds a time of day opens a record, and the
  continuation lines that follow it, up to the next line that matches, belong to it.
  \<open>record_lines\<close> gives for each record its time of day, its opening line and its
  continuation lines; \<open>record_of\<close> is the record made of them, the opening line without
  its first 13 characters followed by the continuation lines.
\<close>

fun record_lines :: "string list \<Rightarrow> (time_of_day \<times> string \<times> string list) list" where
  "record_lines [] = []"
| "record_lines (l # ls) =
     (case matchDate l of
        Inr (True, Some t) \<Rightarrow>
          (t, l, takeWhile (\<lambda>c. \<not> is_timestamp_line c) ls) # record_lines ls
      | _ \<Rightarrow> record_lines ls)"

definition record_of ::
  "('d \<Rightarrow> time_of_day \<Rightarrow> 'tz \<Rightarrow> int) \<Rightarrow> 'd \<Rightarrow> 'tz \<Rightarrow> time_of_day \<times> string \<times> string list \<Rightarrow> event" where
  "record_of to_utc d tz g =
     (case g of (t, l, cs) \<Rightarrow>
        \<lparr>timestamp = to_utc d t tz, message = drop SKIP_CHARS l @ concat cs\<rparr>)"

definition expected_records ::
  "('d \<Rightarrow> time_of_day \<Rightarrow> 'tz \<Rightarrow> int) \<Rightarrow> 'd \<Rightarrow> 'tz \<Rightarrow> string list \<Rightarrow> event list" where
  "expected_records to_utc d tz ls = map (record_of to_utc d tz) (record_lines ls)"

section \<open>The sink: \<^verbatim>\<open>init_aws_stream\<close> and \<^verbatim>\<open>post_log_events\<close>\<close>

text \<open>
  One entry of \<^verbatim>\<open>response['logStreams']\<close> and the response of \<^verbatim>\<open>put_log_events\<close>, with the
  keys the code reads; a key that is absent reads as \<open>None\<close>, as \<^verbatim>\<open>dict.get\<close> gives it.
  The information on rejected events is a dictionary of indices.
\<close>

type_synonym rejected_info = "(string \<times> int) list"

record log_stream =
  logStreamName :: "string option"
  uploadSequenceToken :: "string option"

record put_response =
  nextSequenceToken :: "string option"
  rejectedLogEventsInfo :: "rejected_info option"

text \<open>
  The \<^verbatim>\<open>boto3\<close> client, as the three requests the code makes. A request reads and changes
  the world \<open>'w\<close> outside the program (the streams of the service among it) and returns a
  response or raises. The arguments of \<^verbatim>\<open>describe_log_streams\<close> are the group and the
  prefix of the stream name (the order of the answer is fixed by the code); those of
  \<^verbatim>\<open>put_log_events\<close> are group, stream, events and the sequence token, \<open>None\<close> when the code
  passes none.
\<close>

record 'w logs_client =
  describe_log_streams :: "string \<Rightarrow> string \<Rightarrow> 'w \<Rightarrow> (error + log_stream list) \<times> 'w"
  create_log_stream :: "string \<Rightarrow> string \<Rightarrow> 'w \<Rightarrow> (error + unit) \<times> 'w"
  put_log_events ::
    "string \<Rightarrow> string \<Rightarrow> event list \<Rightarrow> string option \<Rightarrow> 'w \<Rightarrow> (error + put_response) \<times> 'w"

text \<open>
  \<^verbatim>\<open>locate\<close> with \<^verbatim>\<open>next(indexes, None)\<close> picks the first stream whose name is the one
  asked for; that is \<open>find\<close>.
\<close>

definition init_aws_stream ::
  "'w logs_client \<Rightarrow> string \<Rightarrow> string \<Rightarrow> 'w \<Rightarrow> (error + string option) \<times> 'w" where
  "init_aws_stream client log_group_name log_stream_name w =
     (case describe_log_streams client log_group_name log_stream_name w of
        (Inl e, w1) \<Rightarrow> (Inl e, w1)
      | (Inr streams, w1) \<Rightarrow>
          (case find (\<lambda>x. logStreamName x = Some log_stream_name) streams of
             Some s \<Rightarrow> (Inr (uploadSequenceToken s), w1)
           | None \<Rightarrow>
               (case create_log_stream client log_group_name log_stream_name w1 of
                  (Inl e, w2) \<Rightarrow> (Inl e, w2)
                | (Inr _, w2) \<Rightarrow> (Inr None, w2))))"

text \<open>
  The loop of \<^verbatim>\<open>post_log_events\<close> over the batches still to post, from the values of
  \<^verbatim>\<open>next_token\<close> and \<^verbatim>\<open>rejected_events\<close>. The two calls of the source differ only in
  passing the token or not.
\<close>

fun post_loop ::
  "'w logs_client \<Rightarrow> string \<Rightarrow> string \<Rightarrow> string option \<Rightarrow> rejected_info list
     \<Rightarrow> event list list \<Rightarrow> 'w \<Rightarrow> (error + rejected_info list) \<times> 'w" where
  "post_loop client log_group_name log_stream_name next_token rejected_events [] w =
     (Inr rejected_events, w)"
| "post_loop client log_group_name log_stream_name next_token rejected_events (log # rest) w =
     (case put_log_events client log_group_name log_stream_name log next_token w of
        (Inl e, w1) \<Rightarrow> (Inl e, w1)
      | (Inr response, w1) \<Rightarrow>
          post_loop client log_group_name log_stream_name (nextSequenceToken response)
            (case rejectedLogEventsInfo response of
               None \<Rightarrow> rejected_events
             | Some rejected_log_events_info \<Rightarrow> rejected_events @ [rejected_log_events_info])
            rest w1)"

definition post_log_events ::
  "'w logs_client \<Rightarrow> string \<Rightarrow> string \<Rightarrow> string option \<Rightarrow> event list list \<Rightarrow> 'w
     \<Rightarrow> (error + rejected_info list) \<times> 'w" where
  "post_log_events client log_group_name log_stream_name next_token log_event_batches w =
     post_loop client log_group_name log_stream_name next_token [] log_event_batches w"

text \<open>
  To speak of the submissions a run makes, a client is wrapped so that the world also
  holds the list of the calls of \<^verbatim>\<open>put_log_events\<close> made so far, each with its arguments and
  its outcome. The wrapped client answers as the client does.
\<close>

record put_call =
  call_group :: string
  call_stream :: string
  call_events :: "event list"
  call_token :: "string option"
  call_outcome :: "error + put_response"

definition recording :: "'w logs_client \<Rightarrow> ('w \<times> put_call list) logs_client" where
  "recording client =
     \<lparr>describe_log_streams = (\<lambda>g s wt.
        case describe_log_streams client g s (fst wt) of (r, w1) \<Rightarrow> (r, (w1, snd wt))),
      create_log_stream = (\<lambda>g s wt.
        case create_log_stream client g s (fst wt) of (r, w1) \<Rightarrow> (r, (w1, snd wt))),
      put_log_events = (\<lambda>g s evs tok wt.
        case put_log_events client g s evs tok (fst wt) of
          (r, w1) \<Rightarrow>
            (r, (w1, snd wt @ [\<lparr>call_group = g, call_stream = s, call_events = evs,
                                call_token = tok, call_outcome = r\<rparr>])))\<rparr>"

text \<open>
  A list of submissions is chained from a token when the first carries that token and
  each later one carries the token its predecessor returned; a submission that raised is
  the last.
\<close>

fun token_chain :: "string option \<Rightarrow> put_call list \<Rightarrow> bool" where
  "token_chain tok [] = True"
| "token_chain tok (c # cs) =
     (call_token c = tok \<and>
      (case call_outcome c of
         Inl e \<Rightarrow> cs = []
       | Inr response \<Rightarrow> token_chain (nextSequenceToken response) cs))"

section \<open>One run over a log file: \<^verbatim>\<open>process_log_file\<close>\<close>

text \<open>
  What the program takes from its host: the file system, the clock, the calendar and the
  AWS client. \<open>'d\<close> is \<^verbatim>\<open>datetime.date\<close>, \<open>'tz\<close> is \<^verbatim>\<open>ZoneInfo\<close>, and a \<^verbatim>\<open>datetime\<close> read
  from the clock is a number. \<open>open_lines\<close> is \<^verbatim>\<open>open\<close> with the iteration over the lines,
  \<open>datetime_today\<close> and \<open>date_today\<close> are \<^verbatim>\<open>dt.datetime.today()\<close> and \<^verbatim>\<open>dt.date.today()\<close>,
  \<open>strptime_date\<close> is \<^verbatim>\<open>strptime\<close> with \<^verbatim>\<open>'%Y-%m-%d'\<close>, \<open>strftime_date\<close> is \<^verbatim>\<open>strftime\<close> with
  that format, \<open>isfile\<close> is \<^verbatim>\<open>os.path.isfile\<close>, and \<open>boto3_client\<close> is \<^verbatim>\<open>boto3.client('logs')\<close>.
\<close>

record ('w, 'd, 'tz) host =
  open_lines :: "string \<Rightarrow> 'w \<Rightarrow> error + string list"
  isfile :: "string \<Rightarrow> 'w \<Rightarrow> bool"
  datetime_today :: "'w \<Rightarrow> int"
  date_today :: "'w \<Rightarrow> 'd"
  str_datetime :: "int \<Rightarrow> string"
  str_timedelta :: "int \<Rightarrow> string"
  str_date :: "'d \<Rightarrow> string"
  strftime_date :: "'d \<Rightarrow> string"
  strptime_date :: "string \<Rightarrow> error + 'd"
  ZoneInfo :: "string \<Rightarrow> error + 'tz"
  str_tz :: "'tz \<Rightarrow> string"
  local_to_utc_timestamp :: "'d \<Rightarrow> time_of_day \<Rightarrow> 'tz \<Rightarrow> int"
  boto3_client :: "'w logs_client"

record ResultOfLogProcessing =
  log_group_name :: string
  log_stream_name :: string
  server_log_base_file_path :: string
  processed_server_log_file_path :: string
  date_used :: string
  num_events_processed :: int
  num_events_skipped :: int
  tzinfo :: string
  num_batches :: int
  start_time :: string
  end_time :: string
  elapsed_time :: string
  rejected_events :: "rejected_info list"

text \<open>
  \<^verbatim>\<open>process_log_file\<close>. The parameters that share a name with a field of the report carry
  a prime. The batches are built, and checked by \<^verbatim>\<open>test_batches\<close>, before the client is
  made and the first request is sent.
\<close>

definition process_log_file ::
  "('w, 'd, 'tz) host \<Rightarrow> int \<Rightarrow> 'tz \<Rightarrow> 'd \<Rightarrow> string \<Rightarrow> string \<Rightarrow> string \<Rightarrow> string \<Rightarrow> 'w
     \<Rightarrow> (error + ResultOfLogProcessing) \<times> 'w" where
  "process_log_file host skip_num_entries tzinfo' date_of_log_entries server_log_base_file_path'
       process_server_log_file_path log_stream_base_name log_group_name' w =
     (let start_time' = datetime_today host w
      in case open_lines host process_server_log_file_path w of
           Inl e \<Rightarrow> (Inl e, w)
         | Inr f \<Rightarrow>
             (case list_of_generator
                     (generate_dicts (local_to_utc_timestamp host) f date_of_log_entries
                        skip_num_entries tzinfo') of
                Inl e \<Rightarrow> (Inl e, w)
              | Inr generated \<Rightarrow>
                  (let log_events = sort_key timestamp generated
                   in case create_batches log_events of
                        Inl e \<Rightarrow> (Inl e, w)
                      | Inr log_event_batches \<Rightarrow>
                          (let client = boto3_client host;
                               curr_log_stream =
                                 log_stream_base_name @ strftime_date host date_of_log_entries
                           in case init_aws_stream client log_group_name' curr_log_stream w of
                                (Inl e, w1) \<Rightarrow> (Inl e, w1)
                              | (Inr next_token, w1) \<Rightarrow>
                                  (case post_log_events client log_group_name' curr_log_stream
                                          next_token log_event_batches w1 of
                                     (Inl e, w2) \<Rightarrow> (Inl e, w2)
                                   | (Inr rejected_events', w2) \<Rightarrow>
                                       (let end_time' = datetime_today host w2
                                        in (Inr \<lparr>log_group_name = log_group_name',
                                                 log_stream_name = curr_log_stream,
                                                 server_log_base_file_path = server_log_base_file_path',
                                                 processed_server_log_file_path = process_server_log_file_path,
                                                 date_used = str_date host date_of_log_entries,
                                                 num_events_processed = int (length log_events),
                                                 num_events_skipped = skip_num_entries,
                                                 tzinfo = str_tz host tzinfo',
                                                 num_batches = int (length log_event_batches),
                                                 start_time = str_datetime host start_time',
                                                 end_time = str_datetime host end_time',
                                                 elapsed_time = str_timedelta host (end_time' - start_time'),
                                                 rejected_events = rejected_events'\<rparr>, w2)))))))"

text \<open>
  The host whose client is the recording one: its world also holds the list of the
  submissions made so far, and everything else is read from the host.
\<close>

definition recording_host :: "('w, 'd, 'tz) host \<Rightarrow> ('w \<times> put_call list, 'd, 'tz) host" where
  "recording_host host =
     \<lparr>open_lines = (\<lambda>path wt. open_lines host path (fst wt)),
      isfile = (\<lambda>path wt. isfile host path (fst wt)),
      datetime_today = (\<lambda>wt. datetime_today host (fst wt)),
      date_today = (\<lambda>wt. date_today host (fst wt)),
      str_datetime = str_datetime host,
      str_timedelta = str_timedelta host,
      str_date = str_date host,
      strftime_date = strftime_date host,
      strptime_date = strptime_date host,
      ZoneInfo = ZoneInfo host,
      str_tz = str_tz host,
      local_to_utc_timestamp = local_to_utc_timestamp host,
      boto3_client = recording (boto3_client host)\<rparr>"

section \<open>The resume coordinator: the branch \<^verbatim>\<open>COMMAND_LOG_AUTO\<close> of \<^verbatim>\<open>cloudwatch.py\<close>\<close>

definition LOG_GROUP_NAME :: string where
  "LOG_GROUP_NAME = ''DataVirtualityETLLogGroup''"

definition LOG_STREAM_BASE_NAME :: string where
  "LOG_STREAM_BASE_NAME = ''dv-server.log-''"

text \<open>
  The body of \<^verbatim>\<open>if previous_date < today:\<close>. It returns the reports appended to
  \<^verbatim>\<open>all_results\<close> and the checkpoint \<^verbatim>\<open>previous_results\<close> with its counters reset.
\<close>

definition handle_rotation ::
  "('w, 'd, 'tz) host \<Rightarrow> ResultOfLogProcessing \<Rightarrow> 'd \<Rightarrow> 'w
     \<Rightarrow> (error + ResultOfLogProcessing list \<times> ResultOfLogProcessing) \<times> 'w" where
  "handle_rotation host previous_results previous_date w =
     (let rotated_server_log_path =
            server_log_base_file_path previous_results @ ''.'' @ date_used previous_results
      in case (if isfile host rotated_server_log_path w then
                 (case ZoneInfo host (tzinfo previous_results) of
                    Inl e \<Rightarrow> (Inl e, w)
                  | Inr tz \<Rightarrow>
                      (case process_log_file host
                              (num_events_processed previous_results + num_events_skipped previous_results)
                              tz previous_date (server_log_base_file_path previous_results)
                              rotated_server_log_path LOG_STREAM_BASE_NAME LOG_GROUP_NAME w of
                         (Inl e, w1) \<Rightarrow> (Inl e, w1)
                       | (Inr results, w1) \<Rightarrow> (Inr [results], w1)))
               else (Inr [], w)) of
           (Inl e, w1) \<Rightarrow> (Inl e, w1)
         | (Inr all_results, w1) \<Rightarrow>
             (Inr (all_results,
                   previous_results
                     \<lparr>num_batches := 0, num_events_processed := 0, num_events_skipped := 0,
                      processed_server_log_file_path := server_log_base_file_path previous_results\<rparr>),
              w1))"

text \<open>
  The branch from the checkpoint \<^verbatim>\<open>previous_results\<close>, as \<^verbatim>\<open>read_prev_results\<close> has
  returned it, to the list \<^verbatim>\<open>all_results\<close>. The date of the day is read once, before
  any file is processed.
\<close>

definition log_auto ::
  "('w, 'd::linorder, 'tz) host \<Rightarrow> ResultOfLogProcessing \<Rightarrow> 'w
     \<Rightarrow> (error + ResultOfLogProcessing list) \<times> 'w" where
  "log_auto host previous_results w =
     (let today = date_today host w
      in case strptime_date host (date_used previous_results) of
           Inl e \<Rightarrow> (Inl e, w)
         | Inr previous_date \<Rightarrow>
             (case (if previous_date < today
                    then handle_rotation host previous_results previous_date w
                    else (Inr ([], previous_results), w)) of
                (Inl e, w1) \<Rightarrow> (Inl e, w1)
              | (Inr (all_results, previous_results1), w1) \<Rightarrow>
                  (case ZoneInfo host (tzinfo previous_results1) of
                     Inl e \<Rightarrow> (Inl e, w1)
                   | Inr tz \<Rightarrow>
                       (case process_log_file host
                               (num_events_processed previous_results1
                                  + num_events_skipped previous_results1)
                               tz today (server_log_base_file_path previous_results1)
                               (processed_server_log_file_path previous_results1)
                               LOG_STREAM_BASE_NAME LOG_GROUP_NAME w1 of
                          (Inl e, w2) \<Rightarrow> (Inl e, w2)
                        | (Inr results, w2) \<Rightarrow> (Inr (all_results @ [results]), w2)))))"

text \<open>
  A resolver for the examples, with one date and one time zone: the milliseconds since
  midnight.
\<close>

definition millis_since_midnight :: "unit \<Rightarrow> time_of_day \<Rightarrow> unit \<Rightarrow> int" where
  "millis_since_midnight d t tz =
     int (hour t * 3600000 + minute t * 60000 + second t * 1000 + microsecond t div 1000)"

section \<open>A host for the examples\<close>

text \<open>
  A host with three log files, a clock that counts the requests to \<^verbatim>\<open>put_log_events\<close>, the
  days of January 1970 as dates and one time zone. Its service knows the stream of the
  third day, with a token to continue from, and returns a new token for every submission.
\<close>

definition example_client :: "nat logs_client" where
  "example_client =
     \<lparr>describe_log_streams = (\<lambda>g prefix w.
        (Inr [\<lparr>logStreamName = Some ''dv-server.log-1970-01-03'',
               uploadSequenceToken = Some ''token-0''\<rparr>], w)),
      create_log_stream = (\<lambda>g s w. (Inr (), w)),
      put_log_events = (\<lambda>g s evs tok w.
        (Inr \<lparr>nextSequenceToken = Some (''token-'' @ replicate (Suc w) CHR ''I''),
              rejectedLogEventsInfo = None\<rparr>, Suc w))\<rparr>"

definition example_host :: "(nat, nat, unit) host" where
  "example_host =
     \<lparr>open_lines = (\<lambda>path w.
        if path = ''server.log'' then
          Inr [''10:00:00,000 Start\<newline>'', ''continuation\<newline>'', ''10:00:01,500 Done\<newline>'']
        else if path = ''server.log.1970-01-02'' then
          Inr [''23:59:58,000 Old\<newline>'', ''23:59:59,000 Last\<newline>'']
        else if path = ''big.log'' then
          Inr [''10:00:00,000 '' @ replicate 600000 CHR ''x'' @ ''\<newline>'',
               ''10:00:01,000 '' @ replicate 600000 CHR ''y'' @ ''\<newline>'',
               ''10:00:02,000 end\<newline>'']
        else Inl (LibraryError ''FileNotFoundError'')),
      isfile = (\<lambda>path w. path = ''server.log'' \<or> path = ''server.log.1970-01-02''),
      datetime_today = (\<lambda>w. int w),
      date_today = (\<lambda>w. 3),
      str_datetime = (\<lambda>t. ''1970-01-03 00:00:00''),
      str_timedelta = (\<lambda>t. ''0:00:00''),
      str_date = (\<lambda>d. if d = 2 then ''1970-01-02'' else ''1970-01-03''),
      strftime_date = (\<lambda>d. if d = 2 then ''1970-01-02'' else ''1970-01-03''),
      strptime_date = (\<lambda>s.
        if s = ''1970-01-02'' then Inr 2
        else if s = ''1970-01-03'' then Inr 3
        else Inl (LibraryError ''ValueError'')),
      ZoneInfo = (\<lambda>s. if s = ''UTC'' then Inr () else Inl (LibraryError ''ZoneInfoNotFoundError'')),
      str_tz = (\<lambda>tz. ''UTC''),
      local_to_utc_timestamp = (\<lambda>d t tz. int d * 86400000 + millis_since_midnight () t ()),
      boto3_client = example_client\<rparr>"

definition example_checkpoint :: ResultOfLogProcessing where
  "example_checkpoint =
     \<lparr>log_group_name = ''DataVirtualityETLLogGroup'',
      log_stream_name = ''dv-server.log-1970-01-02'',
      server_log_base_file_path = ''server.log'',
      processed_server_log_file_path = ''server.log'',
      date_used = ''1970-01-02'',
      num_events_processed = 1,
      num_events_skipped = 0,
      tzinfo = ''UTC'',
      num_batches = 1,
      start_time = ''1970-01-02 12:00:00'',
      end_time = ''1970-01-02 12:00:00'',
      elapsed_time = ''0:00:00'',
      rejected_events = []\<rparr>"

section \<open>Properties of the batch planner\<close>

lemma foldl_add_sum_list:
  "foldl (\<lambda>s x. s + f x) a xs = a + sum_list (map f xs)"
  for a :: nat
  by (induction xs arbitrary: a) simp_all

lemma test_batch_iff:
  "test_batch EVENT_OVERHEAD mb me batch \<longleftrightarrow> length batch \<le> me \<and> batch_size batch \<le> mb"
proof -
  have "foldl (\<lambda>n ev. n + 1) 0 batch = length batch"
    using foldl_add_sum_list [of "\<lambda>_. 1" 0 batch] by (simp add: sum_list_triv)
  then show ?thesis
    by (auto simp: test_batch_def batch_size_def foldl_add_sum_list Let_def)
qed

lemma test_batches_iff:
  "test_batches bs n EVENT_OVERHEAD mb me = Inr () \<longleftrightarrow>
     (\<forall>b \<in> set bs. length b \<le> me \<and> batch_size b \<le> mb) \<and> length (concat bs) = n"
proof -
  have "foldl (\<lambda>t b. t + length b) 0 bs = length (concat bs)"
    using foldl_add_sum_list [of length 0 bs] by (simp add: length_concat)
  then show ?thesis
    by (simp add: test_batches_def list_all_iff test_batch_iff)
qed

lemma take_slice_append:
  "a \<le> b \<Longrightarrow> take a xs @ slice xs a b = take b xs"
  by (simp add: slice_def take_add [symmetric] del: take_add)

lemma batch_step_inv:
  assumes "batch_inv events idx st" and "idx < length events"
  shows "batch_inv events (Suc idx) (batch_step events st (idx, val))"
proof -
  from assms have c: "concat (batches st) = take (start_pos st) events"
    and le: "start_pos st \<le> idx"
    by (auto simp: batch_inv_def)
  show ?thesis
  proof (cases "idx + 1 = length events")
    case True
    then show ?thesis
      using c by (simp add: batch_step_def batch_inv_def Let_def)
  next
    case False
    with assms(2) have "Suc idx < length events" by simp
    then show ?thesis
      using c le False
      by (simp add: batch_step_def batch_inv_def Let_def take_slice_append)
  qed
qed

lemma batch_loop_inv:
  assumes "idx + length rest = length events" and "batch_inv events idx st"
  shows "concat (batches (foldl (batch_step events) st (enumerate idx rest))) = events"
  using assms
proof (induction rest arbitrary: idx st)
  case Nil
  then show ?case by (auto simp: batch_inv_def)
next
  case (Cons val rest)
  from Cons.prems(1) have lt: "idx < length events" by simp
  have "batch_inv events (Suc idx) (batch_step events st (idx, val))"
    using Cons.prems(2) lt by (rule batch_step_inv)
  moreover from Cons.prems(1) have "Suc idx + length rest = length events" by simp
  ultimately show ?case
    using Cons.IH by simp
qed

lemma concat_constructed_batches:
  "concat (constructed_batches events) = events"
  unfolding constructed_batches_def
  by (rule batch_loop_inv) (auto simp: batch_inv_def)

lemma constructed_batches_Nil:
  "constructed_batches [] = []"
  by (simp add: constructed_batches_def)

lemma create_batches_Inr_iff:
  "create_batches events = Inr bs \<longleftrightarrow>
     bs = constructed_batches events \<and>
     (\<forall>b \<in> set bs. length b \<le> MAX_EVENTS \<and> batch_size b \<le> MAX_BYTES)"
proof -
  have "test_batches (constructed_batches events) (length events) EVENT_OVERHEAD MAX_BYTES MAX_EVENTS = Inr ()
      \<longleftrightarrow> (\<forall>b \<in> set (constructed_batches events). length b \<le> MAX_EVENTS \<and> batch_size b \<le> MAX_BYTES)"
    by (simp add: test_batches_iff concat_constructed_batches)
  then show ?thesis
    by (auto simp: create_batches_def Let_def split: sum.splits)
qed

text \<open>
  An input of at most \<open>MAX_EVENTS + 1\<close> events, whose events but the last fit the byte
  limit, never takes the closing branch: the loop leaves one batch, the whole input.
\<close>

lemma loop_without_close:
  assumes "events = pre @ rest" and "rest \<noteq> []"
    and "length events \<le> Suc MAX_EVENTS"
    and "batch_size (butlast events) \<le> MAX_BYTES"
  shows "batches (foldl (batch_step events)
           \<lparr>batches = [], start_pos = 0, num_events = length pre, cumulative_size = batch_size pre\<rparr>
           (enumerate (length pre) rest)) = [events]"
  using assms
proof (induction rest arbitrary: pre)
  case Nil
  then show ?case by simp
next
  case (Cons val rest)
  show ?case
  proof (cases "rest = []")
    case True
    with Cons.prems(1) show ?thesis
      by (simp add: batch_step_def Let_def)
  next
    case False
    from Cons.prems(1) have ev: "events = (pre @ [val]) @ rest" by simp
    from False Cons.prems(1) have ne: "length pre + 1 \<noteq> length events" by auto
    from False Cons.prems(1,3) have n: "length pre + 1 \<le> MAX_EVENTS"
      by (cases rest) auto
    from False ev have "butlast events = (pre @ [val]) @ butlast rest"
      by (simp add: butlast_append)
    with Cons.prems(4) have sz: "batch_size (pre @ [val]) \<le> MAX_BYTES"
      by (simp add: batch_size_def)
    have step: "batch_step events
        \<lparr>batches = [], start_pos = 0, num_events = length pre, cumulative_size = batch_size pre\<rparr>
        (length pre, val)
      = \<lparr>batches = [], start_pos = 0, num_events = length (pre @ [val]),
          cumulative_size = batch_size (pre @ [val])\<rparr>"
      using ne n sz by (simp add: batch_step_def Let_def batch_size_def)
    have "batches (foldl (batch_step events)
           \<lparr>batches = [], start_pos = 0, num_events = length (pre @ [val]),
              cumulative_size = batch_size (pre @ [val])\<rparr>
           (enumerate (length (pre @ [val])) rest)) = [events]"
      using ev False Cons.prems(3,4) by (rule Cons.IH)
    then show ?thesis
      using step by simp
  qed
qed

lemma constructed_batches_single:
  assumes "events \<noteq> []" and "length events \<le> Suc MAX_EVENTS"
    and "batch_size (butlast events) \<le> MAX_BYTES"
  shows "constructed_batches events = [events]"
  using loop_without_close [of events "[]" events] assms
  by (simp add: constructed_batches_def batch_size_def)

text \<open>
  Claim C1, at an input where it fails. The claim: every batch that \<^verbatim>\<open>create_batches\<close>
  constructs holds at most 10,000 events and at most 1,048,576 bytes, the final batch
  included. For 10,001 events of one character each the loop never closes a batch before
  the last event, and the last event closes the open batch without a look at the limits:
  the one batch constructed holds all 10,001 events, the assertion
  \<^verbatim>\<open>len(batch) <= MAX_EVENTS\<close> of \<^verbatim>\<open>test_batches\<close> fails, and the call raises
  \<^verbatim>\<open>AssertionError\<close> where the batches of 10,000 and 1 events were due.
\<close>

theorem create_batches_overfull_final_batch:
  "constructed_batches (replicate 10001 \<lparr>timestamp = 0, message = ''x''\<rparr>)
     = [replicate 10001 \<lparr>timestamp = 0, message = ''x''\<rparr>]
   \<and> length (replicate 10001 \<lparr>timestamp = 0, message = ''x''\<rparr>) > MAX_EVENTS
   \<and> create_batches (replicate 10001 \<lparr>timestamp = 0, message = ''x''\<rparr>) = Inl AssertionError"
proof -
  have c: "constructed_batches (replicate 10001 \<lparr>timestamp = 0, message = ''x''\<rparr>)
      = [replicate 10001 \<lparr>timestamp = 0, message = ''x''\<rparr>]"
    by (rule constructed_batches_single)
      (simp_all add: MAX_EVENTS_def MAX_BYTES_def batch_size_def butlast_conv_take
        EVENT_OVERHEAD_def sum_list_replicate)
  then have "create_batches (replicate 10001 \<lparr>timestamp = 0, message = ''x''\<rparr>) = Inl AssertionError"
    by (simp add: create_batches_def test_batches_def test_batch_def MAX_EVENTS_def)
  with c show ?thesis
    by (simp add: MAX_EVENTS_def)
qed

text \<open>
  Claim C2. For every list of events, the batches the loop of \<^verbatim>\<open>create_batches\<close> builds,
  concatenated in order, are the input list: no event is dropped, duplicated or moved.
  So the batches that \<^verbatim>\<open>create_batches\<close> returns concatenate to its input, and the
  empty list gives the empty list of batches, not an error.
\<close>

theorem create_batches_partition:
  "concat (constructed_batches events) = events
   \<and> (create_batches events = Inr bs \<longrightarrow> concat bs = events)
   \<and> create_batches [] = Inr []"
proof -
  have "create_batches [] = Inr []"
    by (simp add: create_batches_Inr_iff constructed_batches_Nil)
  then show ?thesis
    by (auto simp: create_batches_Inr_iff concat_constructed_batches)
qed

theorem create_batches_partition_witness:
  "create_batches [\<lparr>timestamp = 5, message = ''Start''\<rparr>, \<lparr>timestamp = 7, message = ''Done''\<rparr>]
     = Inr [[\<lparr>timestamp = 5, message = ''Start''\<rparr>, \<lparr>timestamp = 7, message = ''Done''\<rparr>]]
   \<and> concat [[\<lparr>timestamp = 5, message = ''Start''\<rparr>, \<lparr>timestamp = 7, message = ''Done''\<rparr>]]
     = [\<lparr>timestamp = 5, message = ''Start''\<rparr>, \<lparr>timestamp = 7, message = ''Done''\<rparr>]"
proof -
  have r: "create_batches [\<lparr>timestamp = 5, message = ''Start''\<rparr>, \<lparr>timestamp = 7, message = ''Done''\<rparr>]
     = Inr [[\<lparr>timestamp = 5, message = ''Start''\<rparr>, \<lparr>timestamp = 7, message = ''Done''\<rparr>]]"
    by (simp add: create_batches_def constructed_batches_def batch_step_def test_batches_def
        test_batch_def EVENT_OVERHEAD_def MAX_BYTES_def MAX_EVENTS_def Let_def)
  show ?thesis
    using r create_batches_partition
      [of "[\<lparr>timestamp = 5, message = ''Start''\<rparr>, \<lparr>timestamp = 7, message = ''Done''\<rparr>]"
          "[[\<lparr>timestamp = 5, message = ''Start''\<rparr>, \<lparr>timestamp = 7, message = ''Done''\<rparr>]]"]
    by simp
qed

section \<open>Properties of the record reconstructor\<close>

lemma re_match_take:
  "re_match ps s = Some m \<Longrightarrow> m = take (length ps) s \<and> length m = length ps"
  by (induction ps s arbitrary: m rule: re_match.induct) (auto split: if_splits)

lemma strptime_time_error:
  "strptime_time s = Inl e \<Longrightarrow> e = StrptimeError"
  by (auto simp: strptime_time_def Let_def split: if_splits)

lemma matchDate_cases:
  obtains (Raise) "matchDate line = Inl StrptimeError" and "is_timestamp_line line"
  | (Continuation) "matchDate line = Inr (False, None)" and "\<not> is_timestamp_line line"
  | (Boundary) t where "matchDate line = Inr (True, Some t)" and "is_timestamp_line line"
proof (cases "re_match timestamp_pattern line")
  case None
  then show ?thesis
    using Continuation by (simp add: matchDate_def is_timestamp_line_def)
next
  case (Some m)
  then show ?thesis
    using Raise Boundary
    by (cases "strptime_time (strip m)")
      (auto simp: matchDate_def is_timestamp_line_def dest: strptime_time_error)
qed

lemma not_timestamp_line_iff:
  "\<not> is_timestamp_line line \<longleftrightarrow> matchDate line = Inr (False, None)"
  by (rule matchDate_cases [of line]) auto

lemma generate_loop_raise:
  "matchDate line = Inl e \<Longrightarrow>
     generate_loop to_utc d skip tz cd n (line # rest) = ([], Some e)"
  by simp

lemma generate_loop_continuation:
  "matchDate line = Inr (False, None) \<Longrightarrow>
     generate_loop to_utc d skip tz cd n (line # rest) =
       (if n \<le> skip then generate_loop to_utc d skip tz cd n rest
        else case cd of
               None \<Rightarrow> ([], Some CurrentDictNone)
             | Some c \<Rightarrow> generate_loop to_utc d skip tz (Some (c\<lparr>message := message c @ line\<rparr>)) n rest)"
  by simp

lemma generate_loop_boundary:
  "matchDate line = Inr (True, Some t) \<Longrightarrow>
     generate_loop to_utc d skip tz cd n (line # rest) =
       (if n + 1 \<le> skip then generate_loop to_utc d skip tz cd (n + 1) rest
        else yield_if cd (generate_loop to_utc d skip tz
               (Some \<lparr>timestamp = to_utc d t tz, message = drop SKIP_CHARS line\<rparr>) (n + 1) rest))"
  by (simp add: rem_opt_def)

lemma snd_yield_if [simp]: "snd (yield_if cd r) = snd r"
  by (simp add: yield_if_def split: option.splits)

lemma yield_if_None [simp]: "yield_if None r = r"
  by (simp add: yield_if_def)

lemma yield_if_Some [simp]: "yield_if (Some c) r = (c # fst r, snd r)"
  by (simp add: yield_if_def)

text \<open>No record is open only while the counter has not passed the number to skip.\<close>

lemma generate_loop_no_CurrentDictNone:
  "(cd = None \<longrightarrow> n \<le> skip) \<Longrightarrow>
     snd (generate_loop to_utc d skip tz cd n ls) \<noteq> Some CurrentDictNone"
proof (induction ls arbitrary: cd n)
  case Nil
  then show ?case by simp
next
  case (Cons l ls)
  show ?case
  proof (cases l rule: matchDate_cases)
    case Raise
    then show ?thesis by (simp only: generate_loop_raise) simp
  next
    case Continuation
    then show ?thesis
      using Cons.prems Cons.IH
      by (simp only: generate_loop_continuation) (auto split: option.splits)
  next
    case (Boundary t)
    then show ?thesis
      using Cons.prems Cons.IH
      by (simp only: generate_loop_boundary) auto
  qed
qed


lemma generate_loop_open:
  "skip < n \<Longrightarrow> skip' < n' \<Longrightarrow>
     generate_loop to_utc d skip tz (Some c) n ls = generate_loop to_utc d skip' tz (Some c) n' ls"
proof (induction ls arbitrary: c n n')
  case Nil
  then show ?case by simp
next
  case (Cons l ls)
  show ?case
  proof (cases l rule: matchDate_cases)
    case Raise
    then show ?thesis by (simp only: generate_loop_raise)
  next
    case Continuation
    then show ?thesis
      using Cons.prems Cons.IH [of n n'] by (simp only: generate_loop_continuation) simp
  next
    case (Boundary t)
    then show ?thesis
      using Cons.prems Cons.IH [of "n + 1" "n' + 1"] by (simp only: generate_loop_boundary) simp
  qed
qed





lemma generate_loop_filter_skipped:
  assumes "n + int (length (filter is_timestamp_line pre)) \<le> skip"
  shows "generate_loop to_utc d skip tz None n (pre @ rest)
       = generate_loop to_utc d skip tz None n (filter is_timestamp_line pre @ rest)"
  using assms
proof (induction pre arbitrary: n)
  case Nil
  then show ?case by simp
next
  case (Cons l pre)
  show ?case
  proof (cases l rule: matchDate_cases)
    case Raise
    then show ?thesis
      by (simp only: append_Cons filter.simps if_True generate_loop_raise)
  next
    case Continuation
    then show ?thesis
      using Cons.prems Cons.IH [of n]
      by (simp only: append_Cons filter.simps if_False generate_loop_continuation) simp
  next
    case (Boundary t)
    then show ?thesis
      using Cons.prems Cons.IH [of "n + 1"]
      by (simp only: append_Cons filter.simps if_True generate_loop_boundary) simp
  qed
qed

lemma generate_loop_continuations:
  assumes "\<forall>c \<in> set cs. \<not> is_timestamp_line c" and "skip < n"
  shows "generate_loop to_utc d skip tz (Some r) n (cs @ rest)
       = generate_loop to_utc d skip tz (Some (r\<lparr>message := message r @ concat cs\<rparr>)) n rest"
  using assms
proof (induction cs arbitrary: r)
  case Nil
  then show ?case by simp
next
  case (Cons c cs)
  from Cons.prems(1) have "matchDate c = Inr (False, None)"
    by (simp add: not_timestamp_line_iff)
  then show ?case
    using Cons.prems Cons.IH [of "r\<lparr>message := message r @ c\<rparr>"]
    by (simp only: append_Cons generate_loop_continuation) simp
qed

lemma generate_dicts_first_record:
  assumes "matchDate l = Inr (True, Some t)"
    and "\<forall>c \<in> set cs. \<not> is_timestamp_line c"
    and "rest = [] \<or> (\<exists>l2 rest' t'. rest = l2 # rest' \<and> matchDate l2 = Inr (True, Some t'))"
  shows "generate_dicts to_utc (l # cs @ rest) d 0 tz =
     (\<lparr>timestamp = to_utc d t tz, message = drop 13 l @ concat cs\<rparr>
        # fst (generate_dicts to_utc rest d 0 tz),
      snd (generate_dicts to_utc rest d 0 tz))"
proof -
  let ?r = "\<lparr>timestamp = to_utc d t tz, message = drop 13 l @ concat cs\<rparr>"
  have "generate_dicts to_utc (l # cs @ rest) d 0 tz
      = generate_loop to_utc d 0 tz (Some \<lparr>timestamp = to_utc d t tz, message = drop SKIP_CHARS l\<rparr>) 1 (cs @ rest)"
    unfolding generate_dicts_def using assms(1) by (simp only: generate_loop_boundary) simp
  also have "\<dots> = generate_loop to_utc d 0 tz (Some ?r) 1 rest"
    using generate_loop_continuations [OF assms(2), of 0 1 to_utc d tz _ rest]
    by (simp add: SKIP_CHARS_def)
  finally have g: "generate_dicts to_utc (l # cs @ rest) d 0 tz = generate_loop to_utc d 0 tz (Some ?r) 1 rest" .
  from assms(3) show ?thesis
  proof
    assume "rest = []"
    with g show ?thesis by (simp add: generate_dicts_def)
  next
    assume "\<exists>l2 rest' t'. rest = l2 # rest' \<and> matchDate l2 = Inr (True, Some t')"
    then obtain l2 rest' t' where rest: "rest = l2 # rest'"
      and t': "matchDate l2 = Inr (True, Some t')" by blast
    let ?new = "\<lparr>timestamp = to_utc d t' tz, message = drop SKIP_CHARS l2\<rparr>"
    have o: "generate_loop to_utc d 0 tz (Some ?new) (1 + 1) rest' = generate_loop to_utc d 0 tz (Some ?new) (0 + 1) rest'"
      by (rule generate_loop_open) simp_all
    have a: "generate_loop to_utc d 0 tz (Some ?r) 1 rest = (?r # fst (generate_loop to_utc d 0 tz (Some ?new) (1 + 1) rest'),
         snd (generate_loop to_utc d 0 tz (Some ?new) (1 + 1) rest'))"
      unfolding rest using t' by (simp only: generate_loop_boundary) simp
    have b: "generate_dicts to_utc rest d 0 tz = generate_loop to_utc d 0 tz (Some ?new) (0 + 1) rest'"
      unfolding rest generate_dicts_def using t' by (simp only: generate_loop_boundary) simp
    show ?thesis
      unfolding g a b o ..
  qed
qed

lemma expected_records_Nil [simp]:
  "expected_records to_utc d tz [] = []"
  by (simp add: expected_records_def)

lemma expected_records_continuation:
  "matchDate l = Inr (False, None) \<Longrightarrow>
     expected_records to_utc d tz (l # ls) = expected_records to_utc d tz ls"
  by (simp add: expected_records_def)

lemma expected_records_boundary:
  "matchDate l = Inr (True, Some t) \<Longrightarrow>
     expected_records to_utc d tz (l # ls) =
       \<lparr>timestamp = to_utc d t tz,
        message = drop SKIP_CHARS l @ concat (takeWhile (\<lambda>c. \<not> is_timestamp_line c) ls)\<rparr>
         # expected_records to_utc d tz ls"
  by (simp add: expected_records_def record_of_def)

lemma expected_records_raise:
  "matchDate l = Inl e \<Longrightarrow>
     expected_records to_utc d tz (l # ls) = expected_records to_utc d tz ls"
  by (simp add: expected_records_def)

text \<open>The run from a state in which a record is open.\<close>

lemma generate_loop_open_records:
  assumes "skip < n"
  shows "fst (generate_loop to_utc d skip tz (Some r) n ls)
       = take (length (fst (generate_loop to_utc d skip tz (Some r) n ls)))
           (r\<lparr>message := message r @ concat (takeWhile (\<lambda>c. \<not> is_timestamp_line c) ls)\<rparr>
              # expected_records to_utc d tz ls)
     \<and> ((\<forall>l \<in> set ls. \<forall>e. matchDate l \<noteq> Inl e) \<longrightarrow>
          generate_loop to_utc d skip tz (Some r) n ls
            = (r\<lparr>message := message r @ concat (takeWhile (\<lambda>c. \<not> is_timestamp_line c) ls)\<rparr>
                 # expected_records to_utc d tz ls, None))"
  using assms
proof (induction ls arbitrary: r n)
  case Nil
  then show ?case by simp
next
  case (Cons l ls)
  show ?case
  proof (cases l rule: matchDate_cases)
    case Raise
    then show ?thesis
      by (simp only: generate_loop_raise) auto
  next
    case Continuation
    from Cons.IH [of n "r\<lparr>message := message r @ l\<rparr>"] Cons.prems
    have ih: "fst (generate_loop to_utc d skip tz (Some (r\<lparr>message := message r @ l\<rparr>)) n ls)
       = take (length (fst (generate_loop to_utc d skip tz (Some (r\<lparr>message := message r @ l\<rparr>)) n ls)))
           (r\<lparr>message := message r @ l @ concat (takeWhile (\<lambda>c. \<not> is_timestamp_line c) ls)\<rparr>
              # expected_records to_utc d tz ls)"
      and ih2: "(\<forall>l \<in> set ls. \<forall>e. matchDate l \<noteq> Inl e) \<longrightarrow>
          generate_loop to_utc d skip tz (Some (r\<lparr>message := message r @ l\<rparr>)) n ls
            = (r\<lparr>message := message r @ l @ concat (takeWhile (\<lambda>c. \<not> is_timestamp_line c) ls)\<rparr>
                 # expected_records to_utc d tz ls, None)"
      by simp_all
    have g: "generate_loop to_utc d skip tz (Some r) n (l # ls)
        = generate_loop to_utc d skip tz (Some (r\<lparr>message := message r @ l\<rparr>)) n ls"
      using Cons.prems by (simp only: generate_loop_continuation [OF Continuation(1)]) simp
    have e: "r\<lparr>message := message r @ concat (takeWhile (\<lambda>c. \<not> is_timestamp_line c) (l # ls))\<rparr>
              # expected_records to_utc d tz (l # ls)
        = r\<lparr>message := message r @ l @ concat (takeWhile (\<lambda>c. \<not> is_timestamp_line c) ls)\<rparr>
              # expected_records to_utc d tz ls"
      using Continuation by (simp only: expected_records_continuation) simp
    show ?thesis
      unfolding g e using ih ih2 by simp
  next
    case (Boundary t)
    let ?new = "\<lparr>timestamp = to_utc d t tz, message = drop SKIP_CHARS l\<rparr>"
    from Cons.IH [of "n + 1" ?new] Cons.prems
    have ih: "fst (generate_loop to_utc d skip tz (Some ?new) (n + 1) ls)
       = take (length (fst (generate_loop to_utc d skip tz (Some ?new) (n + 1) ls)))
           (expected_records to_utc d tz (l # ls))"
      and ih2: "(\<forall>l \<in> set ls. \<forall>e. matchDate l \<noteq> Inl e) \<longrightarrow>
          generate_loop to_utc d skip tz (Some ?new) (n + 1) ls
            = (expected_records to_utc d tz (l # ls), None)"
      by (simp_all only: expected_records_boundary [OF Boundary(1)]) simp_all
    have g: "generate_loop to_utc d skip tz (Some r) n (l # ls)
        = (r # fst (generate_loop to_utc d skip tz (Some ?new) (n + 1) ls),
           snd (generate_loop to_utc d skip tz (Some ?new) (n + 1) ls))"
      using Cons.prems by (simp only: generate_loop_boundary [OF Boundary(1)]) simp
    have e: "r\<lparr>message := message r @ concat (takeWhile (\<lambda>c. \<not> is_timestamp_line c) (l # ls))\<rparr> = r"
      using Boundary(2) by simp
    show ?thesis
      unfolding g e using ih ih2 by (auto simp: prod_eq_iff)
  qed
qed


text \<open>The run from a state in which no record is open and timestamp lines are still skipped.\<close>

lemma generate_loop_closed_records:
  assumes "n \<le> skip"
  shows "fst (generate_loop to_utc d skip tz None n ls)
       = take (length (fst (generate_loop to_utc d skip tz None n ls)))
           (drop (nat (skip - n)) (expected_records to_utc d tz ls))
     \<and> ((\<forall>l \<in> set ls. \<forall>e. matchDate l \<noteq> Inl e) \<longrightarrow>
          generate_loop to_utc d skip tz None n ls
            = (drop (nat (skip - n)) (expected_records to_utc d tz ls), None))"
  using assms
proof (induction ls arbitrary: n)
  case Nil
  then show ?case by simp
next
  case (Cons l ls)
  show ?case
  proof (cases l rule: matchDate_cases)
    case Raise
    then show ?thesis
      by (simp only: generate_loop_raise) auto
  next
    case Continuation
    then show ?thesis
      using Cons.prems Cons.IH [of n]
      by (simp only: generate_loop_continuation [OF Continuation(1)]
            expected_records_continuation [OF Continuation(1)]) simp
  next
    case (Boundary t)
    let ?new = "\<lparr>timestamp = to_utc d t tz, message = drop SKIP_CHARS l\<rparr>"
    show ?thesis
    proof (cases "n + 1 \<le> skip")
      case True
      then have "nat (skip - n) = Suc (nat (skip - (n + 1)))"
        by arith
      then have d: "drop (nat (skip - n)) (expected_records to_utc d tz (l # ls))
          = drop (nat (skip - (n + 1))) (expected_records to_utc d tz ls)"
        by (simp only: expected_records_boundary [OF Boundary(1)] drop_Suc_Cons)
      have g: "generate_loop to_utc d skip tz None n (l # ls)
          = generate_loop to_utc d skip tz None (n + 1) ls"
        using True by (simp only: generate_loop_boundary [OF Boundary(1)]) simp
      show ?thesis
        unfolding g d using Cons.IH [OF True] by simp
    next
      case False
      with Cons.prems have eq: "skip - n = 0" by simp
      have lt: "skip < n + 1" using False by simp
      have g: "generate_loop to_utc d skip tz None n (l # ls)
          = generate_loop to_utc d skip tz (Some ?new) (n + 1) ls"
        using False by (simp only: generate_loop_boundary [OF Boundary(1)]) simp
      from generate_loop_open_records [OF lt, of to_utc d tz ?new ls]
      show ?thesis
        unfolding g eq
        by (simp only: expected_records_boundary [OF Boundary(1)]) simp
    qed
  qed
qed

text \<open>The run with a negative number to skip.\<close>

lemma generate_loop_negative_skip_records:
  assumes "skip < n"
  shows "fst (generate_loop to_utc d skip tz None n ls)
       = take (length (fst (generate_loop to_utc d skip tz None n ls)))
           (expected_records to_utc d tz ls)"
proof (cases ls)
  case Nil
  then show ?thesis by simp
next
  case (Cons l rest)
  show ?thesis
  proof (cases l rule: matchDate_cases)
    case Raise
    then show ?thesis
      unfolding Cons by (simp only: generate_loop_raise) simp
  next
    case Continuation
    then show ?thesis
      unfolding Cons using assms
      by (simp only: generate_loop_continuation [OF Continuation(1)]) simp
  next
    case (Boundary t)
    let ?new = "\<lparr>timestamp = to_utc d t tz, message = drop SKIP_CHARS l\<rparr>"
    have lt: "skip < n + 1" using assms by simp
    have g: "generate_loop to_utc d skip tz None n (l # rest)
          = generate_loop to_utc d skip tz (Some ?new) (n + 1) rest"
      using assms by (simp only: generate_loop_boundary [OF Boundary(1)]) simp
    from generate_loop_open_records [OF lt, of to_utc d tz ?new rest]
    show ?thesis
      unfolding Cons g
      by (simp only: expected_records_boundary [OF Boundary(1)]) simp
  qed
qed

lemma generate_dicts_expected_prefix:
  "fst (generate_dicts to_utc ls d k tz)
     = take (length (fst (generate_dicts to_utc ls d k tz)))
         (drop (nat k) (expected_records to_utc d tz ls))"
proof (cases "0 \<le> k")
  case True
  from generate_loop_closed_records [OF True, of to_utc d tz ls] show ?thesis
    by (simp add: generate_dicts_def)
next
  case False
  then have "k < 0" by simp
  from generate_loop_negative_skip_records [OF this, of to_utc d tz ls] False show ?thesis
    by (simp add: generate_dicts_def)
qed

lemma generate_dicts_expected:
  assumes "0 \<le> k" and "\<forall>l \<in> set ls. \<forall>e. matchDate l \<noteq> Inl e"
  shows "generate_dicts to_utc ls d k tz = (drop (nat k) (expected_records to_utc d tz ls), None)"
  using generate_loop_closed_records [OF assms(1), of to_utc d tz ls] assms(2)
  by (simp add: generate_dicts_def)

lemmas generate_dicts_eval =
  generate_dicts_def yield_if_def rem_opt_def SKIP_CHARS_def matchDate_def timestamp_pattern_def
  is_digit_def is_space_def strip_def strptime_time_def slice_def int_of_digits_def digit_value_def
  is_timestamp_line_def

text \<open>
  Claim C3, at an input where it fails. The claim: a continuation line met before any
  record has been opened makes \<^verbatim>\<open>generate_dicts\<close> fail fast with an error, and is never
  dropped in silence. With nothing to skip, a log whose first line is a continuation line
  raises nothing: the test \<^verbatim>\<open>line_num <= skip_num_entries\<close> is \<open>0 \<le> 0\<close>, the line is passed
  over, and the records of the lines after it are emitted. The \<^verbatim>\<open>raise ValueError\<close> written
  for this case stands behind that test and is not reached.
\<close>

theorem generate_dicts_leading_continuation_dropped:
  "generate_dicts to_utc [''continuation\<newline>'', ''10:00:00,000 Start\<newline>''] d 0 tz
     = ([\<lparr>timestamp = to_utc d \<lparr>hour = 10, minute = 0, second = 0, microsecond = 0\<rparr> tz,
          message = ''Start\<newline>''\<rparr>], None)"
  by (simp add: generate_dicts_eval)



text \<open>
  Claim C8 fails as stated. The claim: every record emitted has a message that is not
  empty. A line that is the timestamp and the newline alone matches the pattern (the
  newline is the white space), its first 13 characters are cut off, and the record is
  emitted with the empty message.
\<close>

theorem generate_dicts_empty_message:
  "map message (fst (generate_dicts millis_since_midnight [''10:00:00,000\<newline>''] () 0 ())) = ['''']"
  by (simp add: generate_dicts_eval millis_since_midnight_def)

text \<open>
  Claim C8, amended. For every stream of lines and every skip count, each record that is
  emitted is the record of its own opening line: after \<open>k\<close> records skipped, the \<open>i\<close>-th
  record emitted has the time of the \<open>(k + i)\<close>-th opening line and, as its message, that
  line without its first 13 characters followed by its continuation lines. So its message
  is not empty unless its opening line is the 13 characters alone and all its
  continuation lines are empty; then the message is empty.
\<close>

theorem generate_dicts_messages:
  "\<forall>i < length (fst (generate_dicts to_utc ls d k tz)).
     nat k + i < length (record_lines ls)
     \<and> (case record_lines ls ! (nat k + i) of
          (t, l, cs) \<Rightarrow>
            fst (generate_dicts to_utc ls d k tz) ! i
              = \<lparr>timestamp = to_utc d t tz, message = drop SKIP_CHARS l @ concat cs\<rparr>
            \<and> (message (fst (generate_dicts to_utc ls d k tz) ! i) \<noteq> []
                 \<longleftrightarrow> SKIP_CHARS < length l \<or> (\<exists>c \<in> set cs. c \<noteq> [])))"
proof (intro allI impI)
  fix i
  let ?out = "fst (generate_dicts to_utc ls d k tz)"
  let ?exp = "drop (nat k) (expected_records to_utc d tz ls)"
  assume i: "i < length ?out"
  have p: "?out = take (length ?out) ?exp"
    by (rule generate_dicts_expected_prefix)
  then have "length ?out = min (length ?out) (length ?exp)"
    by (metis length_take min.commute)
  then have le: "length ?out \<le> length ?exp" by simp
  with i have ie: "i < length ?exp" by simp
  then have ki: "nat k + i < length (record_lines ls)"
    by (simp add: expected_records_def)
  have "?out ! i = take (length ?out) ?exp ! i"
    using p by simp
  also have "\<dots> = ?exp ! i"
    using i by simp
  also have "\<dots> = record_of to_utc d tz (record_lines ls ! (nat k + i))"
    using ki by (simp add: expected_records_def)
  finally have r: "?out ! i = record_of to_utc d tz (record_lines ls ! (nat k + i))" .
  obtain t l cs where g: "record_lines ls ! (nat k + i) = (t, l, cs)"
    by (cases "record_lines ls ! (nat k + i)")
  show "nat k + i < length (record_lines ls)
     \<and> (case record_lines ls ! (nat k + i) of
          (t, l, cs) \<Rightarrow>
            ?out ! i = \<lparr>timestamp = to_utc d t tz, message = drop SKIP_CHARS l @ concat cs\<rparr>
            \<and> (message (?out ! i) \<noteq> [] \<longleftrightarrow> SKIP_CHARS < length l \<or> (\<exists>c \<in> set cs. c \<noteq> [])))"
    using ki r g by (auto simp: record_of_def)
qed

lemmas record_lines_eval =
  matchDate_def timestamp_pattern_def is_digit_def is_space_def strip_def strptime_time_def
  slice_def int_of_digits_def digit_value_def is_timestamp_line_def

text \<open>
  Claim C8, amended, on a stream of two records: the first is a bare line with a
  continuation line, the second a bare line alone.
\<close>

theorem generate_dicts_messages_witness:
  "record_lines [''10:00:00,000\<newline>'', ''continuation\<newline>'', ''10:00:01,500\<newline>'']
     = [(\<lparr>hour = 10, minute = 0, second = 0, microsecond = 0\<rparr>,
          ''10:00:00,000\<newline>'', [''continuation\<newline>'']),
        (\<lparr>hour = 10, minute = 0, second = 1, microsecond = 500000\<rparr>,
          ''10:00:01,500\<newline>'', [])]
   \<and> fst (generate_dicts millis_since_midnight
        [''10:00:00,000\<newline>'', ''continuation\<newline>'', ''10:00:01,500\<newline>''] () 0 ())
     = [\<lparr>timestamp = 36000000, message = ''continuation\<newline>''\<rparr>,
        \<lparr>timestamp = 36001500, message = ''''\<rparr>]
   \<and> fst (generate_dicts millis_since_midnight
        [''10:00:00,000\<newline>'', ''continuation\<newline>'', ''10:00:01,500\<newline>''] () 0 ()) ! 1
     = \<lparr>timestamp = 36001500, message = ''''\<rparr>"
proof -
  let ?ls = "[''10:00:00,000\<newline>'', ''continuation\<newline>'', ''10:00:01,500\<newline>'']"
  have rl: "record_lines ?ls
     = [(\<lparr>hour = 10, minute = 0, second = 0, microsecond = 0\<rparr>,
          ''10:00:00,000\<newline>'', [''continuation\<newline>'']),
        (\<lparr>hour = 10, minute = 0, second = 1, microsecond = 500000\<rparr>,
          ''10:00:01,500\<newline>'', [])]"
    by (simp add: record_lines_eval)
  have out: "fst (generate_dicts millis_since_midnight ?ls () 0 ())
     = [\<lparr>timestamp = 36000000, message = ''continuation\<newline>''\<rparr>,
        \<lparr>timestamp = 36001500, message = ''''\<rparr>]"
    by (simp add: generate_dicts_eval millis_since_midnight_def)
  have lt: "1 < length (fst (generate_dicts millis_since_midnight ?ls () 0 ()))"
    by (simp only: out) simp
  note th = generate_dicts_messages [of millis_since_midnight ?ls "()" 0 "()", rule_format, OF lt]
  from th [unfolded rl]
  have "fst (generate_dicts millis_since_midnight ?ls () 0 ()) ! 1
     = \<lparr>timestamp = 36001500, message = ''''\<rparr>"
    by (simp add: millis_since_midnight_def SKIP_CHARS_def)
  with rl out show ?thesis by (simp only:)
qed

text \<open>
  Claim C9, at an input where it fails. The claim: a line that matches the timestamp
  pattern starts a new record, whose message is the line without the 13 characters
  matched, and continuation lines are appended to it. The docstring of \<^verbatim>\<open>matchDate\<close> promises
  \<^verbatim>\<open>(False, None)\<close> or \<^verbatim>\<open>(True, time)\<close> for every line. The regular expression asks for digits
  only, so it matches \<^verbatim>\<open>25:00:00,000\<close>; there \<^verbatim>\<open>strptime\<close> raises \<^verbatim>\<open>ValueError\<close> inside
  \<^verbatim>\<open>matchDate\<close>, nothing catches it, and the generator ends: the second line starts no record
  and is not appended either, and the record that the first line has started is lost.
\<close>

theorem generate_dicts_invalid_time_raises:
  "re_match timestamp_pattern ''25:00:00,000 x\<newline>'' = Some ''25:00:00,000 ''
   \<and> matchDate ''25:00:00,000 x\<newline>'' = Inl StrptimeError
   \<and> generate_dicts to_utc [''10:00:00,000 Start\<newline>'', ''25:00:00,000 x\<newline>''] d 0 tz
       = ([], Some StrptimeError)"
  by (simp add: generate_dicts_eval)

text \<open>
  What the code does where \<^verbatim>\<open>matchDate\<close> returns: the text matched is the first 13
  characters of the line, and the first record of a stream is its opening line without
  them, followed by its continuation lines. The lines of the example of the
  specification give its two records.
\<close>

lemma generate_dicts_timestamp_line:
  assumes "matchDate l = Inr (True, Some t)"
    and "\<forall>c \<in> set cs. \<not> is_timestamp_line c"
    and "rest = [] \<or> (\<exists>l2 rest' t'. rest = l2 # rest' \<and> matchDate l2 = Inr (True, Some t'))"
  shows "re_match timestamp_pattern l = Some (take 13 l) \<and> length (take 13 l) = 13
    \<and> generate_dicts to_utc (l # cs @ rest) d 0 tz =
        (\<lparr>timestamp = to_utc d t tz, message = drop 13 l @ concat cs\<rparr>
           # fst (generate_dicts to_utc rest d 0 tz),
         snd (generate_dicts to_utc rest d 0 tz))
    \<and> generate_dicts to_utc
        [''10:00:00,000 Start\<newline>'', ''continuation\<newline>'', ''10:00:01,500 Done\<newline>''] d 0 tz =
        ([\<lparr>timestamp = to_utc d \<lparr>hour = 10, minute = 0, second = 0, microsecond = 0\<rparr> tz,
           message = ''Start\<newline>continuation\<newline>''\<rparr>,
          \<lparr>timestamp = to_utc d \<lparr>hour = 10, minute = 0, second = 1, microsecond = 500000\<rparr> tz,
           message = ''Done\<newline>''\<rparr>], None)"
proof -
  from assms(1) obtain m where m: "re_match timestamp_pattern l = Some m"
    by (cases "re_match timestamp_pattern l") (simp_all add: matchDate_def)
  have len: "length timestamp_pattern = 13"
    by (simp add: timestamp_pattern_def)
  from re_match_take [OF m] have "m = take 13 l \<and> length m = 13"
    unfolding len .
  then have mt: "m = take 13 l" and lm: "length m = 13"
    by blast+
  have "length (take 13 l) = 13"
    using lm unfolding mt .
  with m mt have p: "re_match timestamp_pattern l = Some (take 13 l) \<and> length (take 13 l) = 13"
    by (simp only:)
  have e: "generate_dicts to_utc
        [''10:00:00,000 Start\<newline>'', ''continuation\<newline>'', ''10:00:01,500 Done\<newline>''] d 0 tz =
        ([\<lparr>timestamp = to_utc d \<lparr>hour = 10, minute = 0, second = 0, microsecond = 0\<rparr> tz,
           message = ''Start\<newline>continuation\<newline>''\<rparr>,
          \<lparr>timestamp = to_utc d \<lparr>hour = 10, minute = 0, second = 1, microsecond = 500000\<rparr> tz,
           message = ''Done\<newline>''\<rparr>], None)"
    by (simp add: generate_dicts_eval)
  from p e generate_dicts_first_record [OF assms, of to_utc d tz] show ?thesis
    by (simp only:)
qed

text \<open>
  Claim C10. For every stream of lines and every skip count that is not negative, the
  run of \<^verbatim>\<open>generate_dicts\<close> never raises \<^verbatim>\<open>ValueError("currentDict should not be None.")\<close>:
  while no record is open the counter of timestamp lines is at most the skip count, and a
  continuation line read then is passed over. So the continuation lines in a prefix that
  holds no more timestamp lines than are skipped can be taken out of the stream without
  any change to the run.
\<close>

theorem generate_dicts_error_branch_unreachable:
  assumes "0 \<le> skip"
  shows "snd (generate_dicts to_utc ls d skip tz) \<noteq> Some CurrentDictNone
    \<and> list_of_generator (generate_dicts to_utc ls d skip tz) \<noteq> Inl CurrentDictNone
    \<and> (int (length (filter is_timestamp_line pre)) \<le> skip
        \<longrightarrow> generate_dicts to_utc (pre @ rest) d skip tz
            = generate_dicts to_utc (filter is_timestamp_line pre @ rest) d skip tz)"
proof -
  have a: "snd (generate_dicts to_utc ls d skip tz) \<noteq> Some CurrentDictNone"
    unfolding generate_dicts_def using assms by (intro generate_loop_no_CurrentDictNone) simp
  then have b: "list_of_generator (generate_dicts to_utc ls d skip tz) \<noteq> Inl CurrentDictNone"
    by (auto simp: list_of_generator_def split: option.splits)
  have c: "generate_dicts to_utc (pre @ rest) d skip tz
            = generate_dicts to_utc (filter is_timestamp_line pre @ rest) d skip tz"
    if "int (length (filter is_timestamp_line pre)) \<le> skip"
    unfolding generate_dicts_def using that by (intro generate_loop_filter_skipped) simp
  from a b c show ?thesis by blast
qed

text \<open>Claim C10 with one record to skip and a continuation line in front of it.\<close>

theorem generate_dicts_error_branch_unreachable_witness:
  "(0::int) \<le> 1
   \<and> generate_dicts millis_since_midnight
       [''early\<newline>'', ''10:00:00,000 Start\<newline>'', ''continuation\<newline>'', ''10:00:01,500 Done\<newline>''] () 1 ()
     = ([\<lparr>timestamp = 36001500, message = ''Done\<newline>''\<rparr>], None)
   \<and> generate_dicts millis_since_midnight
       [''10:00:00,000 Start\<newline>'', ''10:00:01,500 Done\<newline>''] () 1 ()
     = ([\<lparr>timestamp = 36001500, message = ''Done\<newline>''\<rparr>], None)"
  using generate_dicts_error_branch_unreachable [of 1 millis_since_midnight
      "[''early\<newline>'', ''10:00:00,000 Start\<newline>'', ''continuation\<newline>'', ''10:00:01,500 Done\<newline>'']"
      "()" "()" "[''early\<newline>'', ''10:00:00,000 Start\<newline>'', ''continuation\<newline>'']"
      "[''10:00:01,500 Done\<newline>'']"]
  by (simp add: generate_dicts_eval millis_since_midnight_def)

section \<open>Properties of the sink\<close>

lemma token_chain_first:
  "token_chain tok tr \<Longrightarrow> tr \<noteq> [] \<Longrightarrow> call_token (hd tr) = tok"
  by (cases tr) simp_all

lemma token_chain_next:
  "token_chain tok tr \<Longrightarrow> Suc i < length tr \<Longrightarrow>
     \<exists>response. call_outcome (tr ! i) = Inr response
       \<and> call_token (tr ! Suc i) = nextSequenceToken response"
proof (induction tr arbitrary: tok i)
  case Nil
  then show ?case by simp
next
  case (Cons c cs)
  from Cons.prems(2) have ne: "cs \<noteq> []" by auto
  with Cons.prems(1) obtain response where r: "call_outcome c = Inr response"
    and ch: "token_chain (nextSequenceToken response) cs"
    by (cases "call_outcome c") auto
  show ?case
  proof (cases i)
    case 0
    with r ch ne token_chain_first [OF ch ne] show ?thesis
      by (cases cs) simp_all
  next
    case (Suc j)
    with Cons.prems(2) have "Suc j < length cs" by simp
    from Cons.IH [OF ch this] Suc show ?thesis by simp
  qed
qed

lemma post_loop_recording:
  "\<exists>new. post_loop (recording client) g s tok rej bs (w, tr0)
       = (fst (post_loop client g s tok rej bs w), (snd (post_loop client g s tok rej bs w), tr0 @ new))
     \<and> token_chain tok new
     \<and> map call_events new = take (length new) bs
     \<and> (\<forall>c \<in> set new. call_group c = g \<and> call_stream c = s)
     \<and> ((\<exists>r. fst (post_loop client g s tok rej bs w) = Inr r) \<longrightarrow> length new = length bs)"
proof (induction bs arbitrary: tok rej w tr0)
  case Nil
  show ?case by simp
next
  case (Cons b bs)
  obtain r w1 where p: "put_log_events client g s b tok w = (r, w1)"
    by (cases "put_log_events client g s b tok w")
  let ?c = "\<lparr>call_group = g, call_stream = s, call_events = b, call_token = tok, call_outcome = r\<rparr>"
  have rp: "put_log_events (recording client) g s b tok (w, tr0) = (r, (w1, tr0 @ [?c]))"
    using p by (simp add: recording_def)
  show ?case
  proof (cases r)
    case (Inl e)
    with p rp show ?thesis
      by (intro exI [of _ "[?c]"]) simp
  next
    case (Inr response)
    let ?rej = "case rejectedLogEventsInfo response of None \<Rightarrow> rej | Some info \<Rightarrow> rej @ [info]"
    from Cons.IH [of "nextSequenceToken response" ?rej w1 "tr0 @ [?c]"]
    obtain new where n: "post_loop (recording client) g s (nextSequenceToken response) ?rej bs (w1, tr0 @ [?c])
         = (fst (post_loop client g s (nextSequenceToken response) ?rej bs w1),
            (snd (post_loop client g s (nextSequenceToken response) ?rej bs w1), (tr0 @ [?c]) @ new))"
      and ch: "token_chain (nextSequenceToken response) new"
      and ev: "map call_events new = take (length new) bs"
      and gs: "\<forall>c \<in> set new. call_group c = g \<and> call_stream c = s"
      and al: "(\<exists>r. fst (post_loop client g s (nextSequenceToken response) ?rej bs w1) = Inr r)
                 \<longrightarrow> length new = length bs"
      by blast
    show ?thesis
      using Inr p rp n ch ev gs al
      by (intro exI [of _ "?c # new"]) simp
  qed
qed

lemma init_aws_stream_recording:
  "init_aws_stream (recording client) g s (w, tr0)
     = (fst (init_aws_stream client g s w), (snd (init_aws_stream client g s w), tr0))"
  by (simp add: init_aws_stream_def recording_def split: prod.splits sum.splits option.splits)

lemma init_aws_stream_Inr:
  assumes "init_aws_stream client g s w = (Inr tok, w1)"
  shows "\<exists>streams wd. describe_log_streams client g s w = (Inr streams, wd)
     \<and> (case find (\<lambda>x. logStreamName x = Some s) streams of
           Some existing \<Rightarrow> tok = uploadSequenceToken existing \<and> w1 = wd
         | None \<Rightarrow> tok = None \<and> create_log_stream client g s wd = (Inr (), w1))"
  using assms
  by (auto simp: init_aws_stream_def split: prod.splits sum.splits option.splits)

lemmas sink_eval = post_log_events_def init_aws_stream_def recording_def example_client_def

section \<open>Properties of a run and of the resume coordinator\<close>

lemma process_log_file_report:
  assumes "process_log_file host skip tz d base path stream_base grp w = (Inr r, w')"
  shows "num_events_skipped r = skip \<and> processed_server_log_file_path r = path
    \<and> server_log_base_file_path r = base \<and> date_used r = str_date host d
    \<and> log_stream_name r = stream_base @ strftime_date host d \<and> log_group_name r = grp"
  using assms
  by (auto simp: process_log_file_def Let_def split: sum.splits prod.splits)

lemma process_log_file_create_batches_fails:
  assumes "open_lines host path w = Inr f"
    and "list_of_generator (generate_dicts (local_to_utc_timestamp host) f d skip tz) = Inr generated"
    and "create_batches (sort_key timestamp generated) = Inl e"
  shows "process_log_file host skip tz d base path stream_base grp w = (Inl e, w)"
  using assms by (simp add: process_log_file_def Let_def)

lemma handle_rotation_eq:
  assumes "ZoneInfo host (tzinfo prev) = Inr tz"
  shows "handle_rotation host prev previous_date w =
     (if isfile host (server_log_base_file_path prev @ ''.'' @ date_used prev) w then
        (case process_log_file host (num_events_processed prev + num_events_skipped prev) tz
                previous_date (server_log_base_file_path prev)
                (server_log_base_file_path prev @ ''.'' @ date_used prev)
                LOG_STREAM_BASE_NAME LOG_GROUP_NAME w of
           (Inl e, w1) \<Rightarrow> (Inl e, w1)
         | (Inr rotated_report, w1) \<Rightarrow>
             (Inr ([rotated_report],
                   prev\<lparr>num_batches := 0, num_events_processed := 0, num_events_skipped := 0,
                        processed_server_log_file_path := server_log_base_file_path prev\<rparr>), w1))
      else
        (Inr ([], prev\<lparr>num_batches := 0, num_events_processed := 0, num_events_skipped := 0,
                        processed_server_log_file_path := server_log_base_file_path prev\<rparr>), w))"
  using assms
  by (simp add: handle_rotation_def Let_def split: sum.splits prod.splits)

lemma log_auto_rotation_eq:
  assumes "strptime_date host (date_used prev) = Inr previous_date"
    and "previous_date < date_today host w"
    and "ZoneInfo host (tzinfo prev) = Inr tz"
  shows "log_auto host prev w =
     (if isfile host (server_log_base_file_path prev @ ''.'' @ date_used prev) w then
        (case process_log_file host (num_events_processed prev + num_events_skipped prev) tz
                previous_date (server_log_base_file_path prev)
                (server_log_base_file_path prev @ ''.'' @ date_used prev)
                LOG_STREAM_BASE_NAME LOG_GROUP_NAME w of
           (Inl e, w1) \<Rightarrow> (Inl e, w1)
         | (Inr rotated_report, w1) \<Rightarrow>
             (case process_log_file host 0 tz (date_today host w)
                     (server_log_base_file_path prev) (server_log_base_file_path prev)
                     LOG_STREAM_BASE_NAME LOG_GROUP_NAME w1 of
                (Inl e, w2) \<Rightarrow> (Inl e, w2)
              | (Inr live_report, w2) \<Rightarrow> (Inr [rotated_report, live_report], w2)))
      else
        (case process_log_file host 0 tz (date_today host w)
                (server_log_base_file_path prev) (server_log_base_file_path prev)
                LOG_STREAM_BASE_NAME LOG_GROUP_NAME w of
           (Inl e, w2) \<Rightarrow> (Inl e, w2)
         | (Inr live_report, w2) \<Rightarrow> (Inr [live_report], w2)))"
  using assms
  by (simp add: log_auto_def Let_def handle_rotation_eq split: sum.splits prod.splits)

lemmas host_eval =
  process_log_file_def list_of_generator_def create_batches_def constructed_batches_def
  batch_step_def test_batches_def test_batch_def EVENT_OVERHEAD_def MAX_BYTES_def MAX_EVENTS_def
  Let_def example_host_def example_checkpoint_def LOG_GROUP_NAME_def LOG_STREAM_BASE_NAME_def
  millis_since_midnight_def

lemma example_rotated_run:
  "process_log_file example_host 1 () 2 ''server.log'' ''server.log.1970-01-02''
      LOG_STREAM_BASE_NAME LOG_GROUP_NAME 0
   = (Inr \<lparr>log_group_name = ''DataVirtualityETLLogGroup'',
           log_stream_name = ''dv-server.log-1970-01-02'',
           server_log_base_file_path = ''server.log'',
           processed_server_log_file_path = ''server.log.1970-01-02'',
           date_used = ''1970-01-02'',
           num_events_processed = 1,
           num_events_skipped = 1,
           tzinfo = ''UTC'',
           num_batches = 1,
           start_time = ''1970-01-03 00:00:00'',
           end_time = ''1970-01-03 00:00:00'',
           elapsed_time = ''0:00:00'',
           rejected_events = []\<rparr>, 1)"
  by (simp add: host_eval generate_dicts_eval sink_eval)

lemma example_live_run:
  "process_log_file example_host 0 () 3 ''server.log'' ''server.log''
      LOG_STREAM_BASE_NAME LOG_GROUP_NAME (Suc 0)
   = (Inr \<lparr>log_group_name = ''DataVirtualityETLLogGroup'',
           log_stream_name = ''dv-server.log-1970-01-03'',
           server_log_base_file_path = ''server.log'',
           processed_server_log_file_path = ''server.log'',
           date_used = ''1970-01-03'',
           num_events_processed = 2,
           num_events_skipped = 0,
           tzinfo = ''UTC'',
           num_batches = 1,
           start_time = ''1970-01-03 00:00:00'',
           end_time = ''1970-01-03 00:00:00'',
           elapsed_time = ''0:00:00'',
           rejected_events = []\<rparr>, 2)"
  by (simp add: host_eval generate_dicts_eval sink_eval)

lemma example_big_run:
  "process_log_file (recording_host example_host) 0 () 3 ''big.log'' ''big.log''
      LOG_STREAM_BASE_NAME LOG_GROUP_NAME (0, [])
   = (Inr \<lparr>log_group_name = ''DataVirtualityETLLogGroup'',
           log_stream_name = ''dv-server.log-1970-01-03'',
           server_log_base_file_path = ''big.log'',
           processed_server_log_file_path = ''big.log'',
           date_used = ''1970-01-03'',
           num_events_processed = 3,
           num_events_skipped = 0,
           tzinfo = ''UTC'',
           num_batches = 2,
           start_time = ''1970-01-03 00:00:00'',
           end_time = ''1970-01-03 00:00:00'',
           elapsed_time = ''0:00:00'',
           rejected_events = []\<rparr>,
      (2,
       [\<lparr>call_group = ''DataVirtualityETLLogGroup'', call_stream = ''dv-server.log-1970-01-03'',
         call_events = [\<lparr>timestamp = 295200000, message = replicate 600000 CHR ''x'' @ ''\<newline>''\<rparr>],
         call_token = Some ''token-0'',
         call_outcome = Inr \<lparr>nextSequenceToken = Some ''token-I'', rejectedLogEventsInfo = None\<rparr>\<rparr>,
        \<lparr>call_group = ''DataVirtualityETLLogGroup'', call_stream = ''dv-server.log-1970-01-03'',
         call_events = [\<lparr>timestamp = 295201000, message = replicate 600000 CHR ''y'' @ ''\<newline>''\<rparr>,
                        \<lparr>timestamp = 295202000, message = ''end\<newline>''\<rparr>],
         call_token = Some ''token-I'',
         call_outcome = Inr \<lparr>nextSequenceToken = Some ''token-II'', rejectedLogEventsInfo = None\<rparr>\<rparr>]))"
  by (simp add: host_eval generate_dicts_eval sink_eval recording_host_def slice_def)

text \<open>What a run has done when it reaches the sink.\<close>

lemma process_log_file_recording:
  "\<exists>tr. process_log_file (recording_host host) skip tz d base path stream_base grp (w, tr0)
       = (fst (process_log_file host skip tz d base path stream_base grp w),
          (snd (process_log_file host skip tz d base path stream_base grp w), tr0 @ tr))
     \<and> (tr \<noteq> [] \<longrightarrow>
          (\<exists>f generated bs tok w1.
             open_lines host path w = Inr f
             \<and> list_of_generator (generate_dicts (local_to_utc_timestamp host) f d skip tz)
                 = Inr generated
             \<and> create_batches (sort_key timestamp generated) = Inr bs
             \<and> init_aws_stream (boto3_client host) grp (stream_base @ strftime_date host d) w
                 = (Inr tok, w1)
             \<and> token_chain tok tr
             \<and> map call_events tr = take (length tr) bs
             \<and> (\<forall>c \<in> set tr. call_group c = grp
                   \<and> call_stream c = stream_base @ strftime_date host d)))
     \<and> ((\<exists>report. fst (process_log_file host skip tz d base path stream_base grp w) = Inr report)
          \<longrightarrow> (\<exists>f generated.
                 open_lines host path w = Inr f
                 \<and> list_of_generator (generate_dicts (local_to_utc_timestamp host) f d skip tz)
                     = Inr generated
                 \<and> create_batches (sort_key timestamp generated) = Inr (map call_events tr)))"
proof (cases "open_lines host path w")
  case (Inl e)
  then show ?thesis
    by (intro exI [of _ "[]"]) (simp add: process_log_file_def recording_host_def)
next
  case f: (Inr f)
  show ?thesis
  proof (cases "list_of_generator (generate_dicts (local_to_utc_timestamp host) f d skip tz)")
    case (Inl e)
    with f show ?thesis
      by (intro exI [of _ "[]"]) (simp add: process_log_file_def recording_host_def)
  next
    case g: (Inr generated)
    show ?thesis
    proof (cases "create_batches (sort_key timestamp generated)")
      case (Inl e)
      with f g show ?thesis
        by (intro exI [of _ "[]"]) (simp add: process_log_file_def recording_host_def)
    next
      case b: (Inr bs)
      let ?s = "stream_base @ strftime_date host d"
      let ?client = "boto3_client host"
      obtain ri w1 where i: "init_aws_stream ?client grp ?s w = (ri, w1)"
        by (cases "init_aws_stream ?client grp ?s w")
      then have ir: "init_aws_stream (recording ?client) grp ?s (w, tr0) = (ri, (w1, tr0))"
        by (simp add: init_aws_stream_recording)
      show ?thesis
      proof (cases ri)
        case (Inl e)
        with f g b i ir show ?thesis
          by (intro exI [of _ "[]"]) (simp add: process_log_file_def recording_host_def)
      next
        case tok: (Inr tok)
        from post_loop_recording [of ?client grp ?s tok "[]" bs w1 tr0]
        obtain new where
          pr: "post_loop (recording ?client) grp ?s tok [] bs (w1, tr0)
             = (fst (post_loop ?client grp ?s tok [] bs w1),
                (snd (post_loop ?client grp ?s tok [] bs w1), tr0 @ new))"
          and ch: "token_chain tok new"
          and ev: "map call_events new = take (length new) bs"
          and gs: "\<forall>c \<in> set new. call_group c = grp \<and> call_stream c = ?s"
          and al: "(\<exists>r. fst (post_loop ?client grp ?s tok [] bs w1) = Inr r) \<longrightarrow> length new = length bs"
          by blast
        obtain rp w2 where p: "post_loop ?client grp ?s tok [] bs w1 = (rp, w2)"
          by (cases "post_loop ?client grp ?s tok [] bs w1")
        have run: "process_log_file (recording_host host) skip tz d base path stream_base grp (w, tr0)
            = (fst (process_log_file host skip tz d base path stream_base grp w),
               (snd (process_log_file host skip tz d base path stream_base grp w), tr0 @ new))"
          using f g b i ir tok pr p
          by (cases rp)
            (simp_all add: process_log_file_def recording_host_def post_log_events_def Let_def)
        have full: "create_batches (sort_key timestamp generated) = Inr (map call_events new)"
          if "\<exists>report. fst (process_log_file host skip tz d base path stream_base grp w) = Inr report"
        proof -
          from that f g b i tok p have "\<exists>rej. rp = Inr rej"
            by (cases rp)
              (simp_all add: process_log_file_def post_log_events_def Let_def)
          with al p have "length new = length bs" by simp
          with ev b show ?thesis by simp
        qed
        from f g b i tok ch ev gs
        have "\<exists>f generated bs tok w1.
             open_lines host path w = Inr f
             \<and> list_of_generator (generate_dicts (local_to_utc_timestamp host) f d skip tz)
                 = Inr generated
             \<and> create_batches (sort_key timestamp generated) = Inr bs
             \<and> init_aws_stream (boto3_client host) grp (stream_base @ strftime_date host d) w
                 = (Inr tok, w1)
             \<and> token_chain tok new
             \<and> map call_events new = take (length new) bs
             \<and> (\<forall>c \<in> set new. call_group c = grp
                   \<and> call_stream c = stream_base @ strftime_date host d)"
          by blast
        with run full f g show ?thesis
          by (intro exI [of _ new]) simp
      qed
    qed
  qed
qed

text \<open>
  Claim C6. In a run of \<^verbatim>\<open>process_log_file\<close> the submissions to the sink are the batches
  that \<^verbatim>\<open>create_batches\<close> has returned, in their order, each once, up to the last batch or to
  a submission that raises; all go to the group and the stream of the run. The first
  submission carries the upload token of that stream when the description of the streams
  lists it, and no token when the stream was not listed and has been created. Every later
  submission carries the token that the submission just before it returned. The same
  holds of \<^verbatim>\<open>post_log_events\<close> alone, from the token it is given.
\<close>

theorem post_log_events_token_chain:
  "(process_log_file (recording_host host) skip tz d base path stream_base grp (w, [])
      = (res, (w', tr)) \<longrightarrow>
      process_log_file host skip tz d base path stream_base grp w = (res, w')
      \<and> (\<forall>c \<in> set tr. call_group c = grp \<and> call_stream c = stream_base @ strftime_date host d)
      \<and> (\<forall>i. Suc i < length tr \<longrightarrow>
            (\<exists>response. call_outcome (tr ! i) = Inr response
               \<and> call_token (tr ! Suc i) = nextSequenceToken response))
      \<and> (tr \<noteq> [] \<longrightarrow>
            (\<exists>f generated bs streams wd.
               open_lines host path w = Inr f
               \<and> list_of_generator (generate_dicts (local_to_utc_timestamp host) f d skip tz)
                   = Inr generated
               \<and> create_batches (sort_key timestamp generated) = Inr bs
               \<and> map call_events tr = take (length tr) bs
               \<and> describe_log_streams (boto3_client host) grp (stream_base @ strftime_date host d) w
                   = (Inr streams, wd)
               \<and> (case find (\<lambda>x. logStreamName x = Some (stream_base @ strftime_date host d)) streams of
                     Some existing \<Rightarrow> call_token (hd tr) = uploadSequenceToken existing
                   | None \<Rightarrow>
                       call_token (hd tr) = None
                       \<and> (\<exists>wc. create_log_stream (boto3_client host) grp
                                  (stream_base @ strftime_date host d) wd = (Inr (), wc)))))
      \<and> ((\<exists>report. res = Inr report) \<longrightarrow>
            (\<exists>f generated.
               open_lines host path w = Inr f
               \<and> list_of_generator (generate_dicts (local_to_utc_timestamp host) f d skip tz)
                   = Inr generated
               \<and> create_batches (sort_key timestamp generated) = Inr (map call_events tr))))
   \<and> (post_log_events (recording client) g s tok batches0 (v, []) = (res0, (v', tr0)) \<longrightarrow>
        post_log_events client g s tok batches0 v = (res0, v')
        \<and> map call_events tr0 = take (length tr0) batches0
        \<and> (\<forall>c \<in> set tr0. call_group c = g \<and> call_stream c = s)
        \<and> ((\<exists>rejected. res0 = Inr rejected) \<longrightarrow> length tr0 = length batches0)
        \<and> (tr0 \<noteq> [] \<longrightarrow> call_token (hd tr0) = tok)
        \<and> (\<forall>i. Suc i < length tr0 \<longrightarrow>
              (\<exists>response. call_outcome (tr0 ! i) = Inr response
                 \<and> call_token (tr0 ! Suc i) = nextSequenceToken response)))"
proof (intro conjI impI)
  assume run: "process_log_file (recording_host host) skip tz d base path stream_base grp (w, [])
      = (res, (w', tr))"
  let ?s = "stream_base @ strftime_date host d"
  from process_log_file_recording [of host skip tz d base path stream_base grp w "[]"] run
  have same: "process_log_file host skip tz d base path stream_base grp w = (res, w')"
    and sink: "tr \<noteq> [] \<longrightarrow>
          (\<exists>f generated bs tok w1.
             open_lines host path w = Inr f
             \<and> list_of_generator (generate_dicts (local_to_utc_timestamp host) f d skip tz)
                 = Inr generated
             \<and> create_batches (sort_key timestamp generated) = Inr bs
             \<and> init_aws_stream (boto3_client host) grp ?s w = (Inr tok, w1)
             \<and> token_chain tok tr
             \<and> map call_events tr = take (length tr) bs
             \<and> (\<forall>c \<in> set tr. call_group c = grp \<and> call_stream c = ?s))"
    and full: "(\<exists>report. res = Inr report) \<longrightarrow>
          (\<exists>f generated.
             open_lines host path w = Inr f
             \<and> list_of_generator (generate_dicts (local_to_utc_timestamp host) f d skip tz)
                 = Inr generated
             \<and> create_batches (sort_key timestamp generated) = Inr (map call_events tr))"
    by (auto simp: prod_eq_iff)
  show "process_log_file host skip tz d base path stream_base grp w = (res, w')"
    by (rule same)
  show "\<forall>c \<in> set tr. call_group c = grp \<and> call_stream c = ?s"
    using sink by (cases "tr = []") auto
  show "\<forall>i. Suc i < length tr \<longrightarrow>
            (\<exists>response. call_outcome (tr ! i) = Inr response
               \<and> call_token (tr ! Suc i) = nextSequenceToken response)"
  proof (intro allI impI)
    fix i
    assume i: "Suc i < length tr"
    then have "tr \<noteq> []" by auto
    with sink obtain tok where "token_chain tok tr" by blast
    from token_chain_next [OF this i]
    show "\<exists>response. call_outcome (tr ! i) = Inr response
               \<and> call_token (tr ! Suc i) = nextSequenceToken response" .
  qed
  show "\<exists>f generated bs streams wd.
               open_lines host path w = Inr f
               \<and> list_of_generator (generate_dicts (local_to_utc_timestamp host) f d skip tz)
                   = Inr generated
               \<and> create_batches (sort_key timestamp generated) = Inr bs
               \<and> map call_events tr = take (length tr) bs
               \<and> describe_log_streams (boto3_client host) grp ?s w = (Inr streams, wd)
               \<and> (case find (\<lambda>x. logStreamName x = Some ?s) streams of
                     Some existing \<Rightarrow> call_token (hd tr) = uploadSequenceToken existing
                   | None \<Rightarrow>
                       call_token (hd tr) = None
                       \<and> (\<exists>wc. create_log_stream (boto3_client host) grp ?s wd = (Inr (), wc)))"
    if ne: "tr \<noteq> []"
  proof -
    from sink ne obtain f generated bs tok w1 where
      f: "open_lines host path w = Inr f"
      and g: "list_of_generator (generate_dicts (local_to_utc_timestamp host) f d skip tz)
                 = Inr generated"
      and b: "create_batches (sort_key timestamp generated) = Inr bs"
      and i: "init_aws_stream (boto3_client host) grp ?s w = (Inr tok, w1)"
      and ch: "token_chain tok tr"
      and ev: "map call_events tr = take (length tr) bs"
      by blast
    from token_chain_first [OF ch ne] have first: "call_token (hd tr) = tok" .
    from init_aws_stream_Inr [OF i] obtain streams wd where
      ds: "describe_log_streams (boto3_client host) grp ?s w = (Inr streams, wd)"
      and fi: "case find (\<lambda>x. logStreamName x = Some ?s) streams of
           Some existing \<Rightarrow> tok = uploadSequenceToken existing \<and> w1 = wd
         | None \<Rightarrow> tok = None \<and> create_log_stream (boto3_client host) grp ?s wd = (Inr (), w1)"
      by blast
    from fi first have "case find (\<lambda>x. logStreamName x = Some ?s) streams of
                     Some existing \<Rightarrow> call_token (hd tr) = uploadSequenceToken existing
                   | None \<Rightarrow>
                       call_token (hd tr) = None
                       \<and> (\<exists>wc. create_log_stream (boto3_client host) grp ?s wd = (Inr (), wc))"
      by (auto split: option.splits)
    with f g b ev ds show ?thesis by blast
  qed
  show "\<exists>f generated.
               open_lines host path w = Inr f
               \<and> list_of_generator (generate_dicts (local_to_utc_timestamp host) f d skip tz)
                   = Inr generated
               \<and> create_batches (sort_key timestamp generated) = Inr (map call_events tr)"
    if "\<exists>report. res = Inr report"
    using full that by blast
next
  assume run: "post_log_events (recording client) g s tok batches0 (v, []) = (res0, (v', tr0))"
  from post_loop_recording [of client g s tok "[]" batches0 v "[]"] run
  have r: "post_log_events client g s tok batches0 v = (res0, v')"
    and ch: "token_chain tok tr0"
    and ev: "map call_events tr0 = take (length tr0) batches0"
    and gs: "\<forall>c \<in> set tr0. call_group c = g \<and> call_stream c = s"
    and al: "(\<exists>rejected. res0 = Inr rejected) \<longrightarrow> length tr0 = length batches0"
    by (auto simp: post_log_events_def)
  show "post_log_events client g s tok batches0 v = (res0, v')" by (rule r)
  show "map call_events tr0 = take (length tr0) batches0" by (rule ev)
  show "\<forall>c \<in> set tr0. call_group c = g \<and> call_stream c = s" by (rule gs)
  show "length tr0 = length batches0" if "\<exists>rejected. res0 = Inr rejected"
    using al that by blast
  show "call_token (hd tr0) = tok" if "tr0 \<noteq> []"
    using token_chain_first [OF ch that] .
  show "\<forall>i. Suc i < length tr0 \<longrightarrow>
              (\<exists>response. call_outcome (tr0 ! i) = Inr response
                 \<and> call_token (tr0 ! Suc i) = nextSequenceToken response)"
    using token_chain_next [OF ch] by blast
qed

text \<open>
  Claim C6 on the host of the examples, for the log of three entries that needs two
  batches, and for two batches given to \<^verbatim>\<open>post_log_events\<close>.
\<close>

theorem post_log_events_token_chain_witness:
  "process_log_file (recording_host example_host) 0 () 3 ''big.log'' ''big.log''
      LOG_STREAM_BASE_NAME LOG_GROUP_NAME (0, [])
   = (Inr \<lparr>log_group_name = ''DataVirtualityETLLogGroup'',
           log_stream_name = ''dv-server.log-1970-01-03'',
           server_log_base_file_path = ''big.log'',
           processed_server_log_file_path = ''big.log'',
           date_used = ''1970-01-03'',
           num_events_processed = 3,
           num_events_skipped = 0,
           tzinfo = ''UTC'',
           num_batches = 2,
           start_time = ''1970-01-03 00:00:00'',
           end_time = ''1970-01-03 00:00:00'',
           elapsed_time = ''0:00:00'',
           rejected_events = []\<rparr>,
      (2,
       [\<lparr>call_group = ''DataVirtualityETLLogGroup'', call_stream = ''dv-server.log-1970-01-03'',
         call_events = [\<lparr>timestamp = 295200000, message = replicate 600000 CHR ''x'' @ ''\<newline>''\<rparr>],
         call_token = Some ''token-0'',
         call_outcome = Inr \<lparr>nextSequenceToken = Some ''token-I'', rejectedLogEventsInfo = None\<rparr>\<rparr>,
        \<lparr>call_group = ''DataVirtualityETLLogGroup'', call_stream = ''dv-server.log-1970-01-03'',
         call_events = [\<lparr>timestamp = 295201000, message = replicate 600000 CHR ''y'' @ ''\<newline>''\<rparr>,
                        \<lparr>timestamp = 295202000, message = ''end\<newline>''\<rparr>],
         call_token = Some ''token-I'',
         call_outcome = Inr \<lparr>nextSequenceToken = Some ''token-II'', rejectedLogEventsInfo = None\<rparr>\<rparr>]))
   \<and> process_log_file example_host 0 () 3 ''big.log'' ''big.log''
      LOG_STREAM_BASE_NAME LOG_GROUP_NAME 0
   = (Inr \<lparr>log_group_name = ''DataVirtualityETLLogGroup'',
           log_stream_name = ''dv-server.log-1970-01-03'',
           server_log_base_file_path = ''big.log'',
           processed_server_log_file_path = ''big.log'',
           date_used = ''1970-01-03'',
           num_events_processed = 3,
           num_events_skipped = 0,
           tzinfo = ''UTC'',
           num_batches = 2,
           start_time = ''1970-01-03 00:00:00'',
           end_time = ''1970-01-03 00:00:00'',
           elapsed_time = ''0:00:00'',
           rejected_events = []\<rparr>,
      2)
   \<and> describe_log_streams (boto3_client example_host) LOG_GROUP_NAME ''dv-server.log-1970-01-03'' 0
     = (Inr [\<lparr>logStreamName = Some ''dv-server.log-1970-01-03'',
              uploadSequenceToken = Some ''token-0''\<rparr>], 0)
   \<and> post_log_events (recording example_client) ''group'' ''dv-server.log-1970-01-03'' (Some ''token-0'')
      [[\<lparr>timestamp = 1, message = ''a''\<rparr>], [\<lparr>timestamp = 2, message = ''b''\<rparr>]] (0, [])
    = (Inr [], (2,
        [\<lparr>call_group = ''group'', call_stream = ''dv-server.log-1970-01-03'',
          call_events = [\<lparr>timestamp = 1, message = ''a''\<rparr>], call_token = Some ''token-0'',
          call_outcome = Inr \<lparr>nextSequenceToken = Some ''token-I'', rejectedLogEventsInfo = None\<rparr>\<rparr>,
         \<lparr>call_group = ''group'', call_stream = ''dv-server.log-1970-01-03'',
          call_events = [\<lparr>timestamp = 2, message = ''b''\<rparr>], call_token = Some ''token-I'',
          call_outcome = Inr \<lparr>nextSequenceToken = Some ''token-II'', rejectedLogEventsInfo = None\<rparr>\<rparr>]))
   \<and> post_log_events example_client ''group'' ''dv-server.log-1970-01-03'' (Some ''token-0'')
      [[\<lparr>timestamp = 1, message = ''a''\<rparr>], [\<lparr>timestamp = 2, message = ''b''\<rparr>]] 0 = (Inr [], 2)"
proof -
  have run: "process_log_file (recording_host example_host) 0 () 3 ''big.log'' ''big.log''
      LOG_STREAM_BASE_NAME LOG_GROUP_NAME (0, [])
   = (Inr \<lparr>log_group_name = ''DataVirtualityETLLogGroup'',
           log_stream_name = ''dv-server.log-1970-01-03'',
           server_log_base_file_path = ''big.log'',
           processed_server_log_file_path = ''big.log'',
           date_used = ''1970-01-03'',
           num_events_processed = 3,
           num_events_skipped = 0,
           tzinfo = ''UTC'',
           num_batches = 2,
           start_time = ''1970-01-03 00:00:00'',
           end_time = ''1970-01-03 00:00:00'',
           elapsed_time = ''0:00:00'',
           rejected_events = []\<rparr>,
      (2,
       [\<lparr>call_group = ''DataVirtualityETLLogGroup'', call_stream = ''dv-server.log-1970-01-03'',
         call_events = [\<lparr>timestamp = 295200000, message = replicate 600000 CHR ''x'' @ ''\<newline>''\<rparr>],
         call_token = Some ''token-0'',
         call_outcome = Inr \<lparr>nextSequenceToken = Some ''token-I'', rejectedLogEventsInfo = None\<rparr>\<rparr>,
        \<lparr>call_group = ''DataVirtualityETLLogGroup'', call_stream = ''dv-server.log-1970-01-03'',
         call_events = [\<lparr>timestamp = 295201000, message = replicate 600000 CHR ''y'' @ ''\<newline>''\<rparr>,
                        \<lparr>timestamp = 295202000, message = ''end\<newline>''\<rparr>],
         call_token = Some ''token-I'',
         call_outcome = Inr \<lparr>nextSequenceToken = Some ''token-II'', rejectedLogEventsInfo = None\<rparr>\<rparr>]))"
    by (rule example_big_run)
  have same: "process_log_file example_host 0 () 3 ''big.log'' ''big.log''
      LOG_STREAM_BASE_NAME LOG_GROUP_NAME 0
   = (Inr \<lparr>log_group_name = ''DataVirtualityETLLogGroup'',
           log_stream_name = ''dv-server.log-1970-01-03'',
           server_log_base_file_path = ''big.log'',
           processed_server_log_file_path = ''big.log'',
           date_used = ''1970-01-03'',
           num_events_processed = 3,
           num_events_skipped = 0,
           tzinfo = ''UTC'',
           num_batches = 2,
           start_time = ''1970-01-03 00:00:00'',
           end_time = ''1970-01-03 00:00:00'',
           elapsed_time = ''0:00:00'',
           rejected_events = []\<rparr>,
      2)"
    by (rule post_log_events_token_chain [THEN conjunct1, rule_format, OF run, THEN conjunct1])
  have desc: "describe_log_streams (boto3_client example_host) LOG_GROUP_NAME ''dv-server.log-1970-01-03'' 0
     = (Inr [\<lparr>logStreamName = Some ''dv-server.log-1970-01-03'',
              uploadSequenceToken = Some ''token-0''\<rparr>], 0)"
    by (simp add: example_host_def example_client_def)
  have post: "post_log_events (recording example_client) ''group'' ''dv-server.log-1970-01-03'' (Some ''token-0'')
      [[\<lparr>timestamp = 1, message = ''a''\<rparr>], [\<lparr>timestamp = 2, message = ''b''\<rparr>]] (0, [])
    = (Inr [], (2,
        [\<lparr>call_group = ''group'', call_stream = ''dv-server.log-1970-01-03'',
          call_events = [\<lparr>timestamp = 1, message = ''a''\<rparr>], call_token = Some ''token-0'',
          call_outcome = Inr \<lparr>nextSequenceToken = Some ''token-I'', rejectedLogEventsInfo = None\<rparr>\<rparr>,
         \<lparr>call_group = ''group'', call_stream = ''dv-server.log-1970-01-03'',
          call_events = [\<lparr>timestamp = 2, message = ''b''\<rparr>], call_token = Some ''token-I'',
          call_outcome = Inr \<lparr>nextSequenceToken = Some ''token-II'', rejectedLogEventsInfo = None\<rparr>\<rparr>]))"
    by (simp add: sink_eval)
  have same2: "post_log_events example_client ''group'' ''dv-server.log-1970-01-03'' (Some ''token-0'')
      [[\<lparr>timestamp = 1, message = ''a''\<rparr>], [\<lparr>timestamp = 2, message = ''b''\<rparr>]] 0 = (Inr [], 2)"
    by (rule post_log_events_token_chain [THEN conjunct2, rule_format, OF post, THEN conjunct1])
  from run same desc post same2 show ?thesis
    by (simp only:)
qed

text \<open>
  Claim C4. In auto mode, with a checkpoint whose \<^verbatim>\<open>date_used\<close> parses to a date strictly
  before the date of the day (and whose time zone is known): if the rotated file
  \<^verbatim>\<open>server_log_base_file_path + "." + date_used\<close> exists, it is processed first, with the skip
  offset \<^verbatim>\<open>num_events_processed + num_events_skipped\<close> of the checkpoint and for the date of
  the checkpoint; then, whether the rotated file exists or not, the live file
  \<^verbatim>\<open>server_log_base_file_path\<close> is processed for the date of the day with the skip offset 0
  of the reset counters. The reports come in this order, the report of the rotated file
  (if there is one) and then the report of the live file. An exception out of a run ends
  the branch with that exception.
\<close>

theorem log_auto_rotation:
  assumes "strptime_date host (date_used prev) = Inr previous_date"
    and "previous_date < date_today host w"
    and "ZoneInfo host (tzinfo prev) = Inr tz"
  shows "log_auto host prev w =
     (if isfile host (server_log_base_file_path prev @ ''.'' @ date_used prev) w then
        (case process_log_file host (num_events_processed prev + num_events_skipped prev) tz
                previous_date (server_log_base_file_path prev)
                (server_log_base_file_path prev @ ''.'' @ date_used prev)
                LOG_STREAM_BASE_NAME LOG_GROUP_NAME w of
           (Inl e, w1) \<Rightarrow> (Inl e, w1)
         | (Inr rotated_report, w1) \<Rightarrow>
             (case process_log_file host 0 tz (date_today host w)
                     (server_log_base_file_path prev) (server_log_base_file_path prev)
                     LOG_STREAM_BASE_NAME LOG_GROUP_NAME w1 of
                (Inl e, w2) \<Rightarrow> (Inl e, w2)
              | (Inr live_report, w2) \<Rightarrow> (Inr [rotated_report, live_report], w2)))
      else
        (case process_log_file host 0 tz (date_today host w)
                (server_log_base_file_path prev) (server_log_base_file_path prev)
                LOG_STREAM_BASE_NAME LOG_GROUP_NAME w of
           (Inl e, w2) \<Rightarrow> (Inl e, w2)
         | (Inr live_report, w2) \<Rightarrow> (Inr [live_report], w2)))
    \<and> (log_auto host prev w = (Inr reports, w') \<longrightarrow>
          reports \<noteq> [] \<and> num_events_skipped (last reports) = 0
          \<and> processed_server_log_file_path (last reports) = server_log_base_file_path prev
          \<and> date_used (last reports) = str_date host (date_today host w)
          \<and> (if isfile host (server_log_base_file_path prev @ ''.'' @ date_used prev) w then
                length reports = 2
                \<and> num_events_skipped (hd reports)
                    = num_events_processed prev + num_events_skipped prev
                \<and> processed_server_log_file_path (hd reports)
                    = server_log_base_file_path prev @ ''.'' @ date_used prev
                \<and> date_used (hd reports) = str_date host previous_date
              else length reports = 1))"
proof -
  note eq = log_auto_rotation_eq [OF assms]
  have "reports \<noteq> [] \<and> num_events_skipped (last reports) = 0
          \<and> processed_server_log_file_path (last reports) = server_log_base_file_path prev
          \<and> date_used (last reports) = str_date host (date_today host w)
          \<and> (if isfile host (server_log_base_file_path prev @ ''.'' @ date_used prev) w then
                length reports = 2
                \<and> num_events_skipped (hd reports)
                    = num_events_processed prev + num_events_skipped prev
                \<and> processed_server_log_file_path (hd reports)
                    = server_log_base_file_path prev @ ''.'' @ date_used prev
                \<and> date_used (hd reports) = str_date host previous_date
              else length reports = 1)"
    if "log_auto host prev w = (Inr reports, w')"
    using that unfolding eq
    by (auto split: if_splits sum.splits prod.splits dest!: process_log_file_report)
  with eq show ?thesis by blast
qed

text \<open>
  Claim C4 on the host of the examples: the checkpoint is of the second day, the day is
  the third, and the rotated file exists.
\<close>

theorem log_auto_rotation_witness:
  "strptime_date example_host (date_used example_checkpoint) = Inr 2
   \<and> (2::nat) < date_today example_host 0
   \<and> ZoneInfo example_host (tzinfo example_checkpoint) = Inr ()
   \<and> isfile example_host ''server.log.1970-01-02'' 0
   \<and> log_auto example_host example_checkpoint 0
     = (Inr [\<lparr>log_group_name = ''DataVirtualityETLLogGroup'',
              log_stream_name = ''dv-server.log-1970-01-02'',
              server_log_base_file_path = ''server.log'',
              processed_server_log_file_path = ''server.log.1970-01-02'',
              date_used = ''1970-01-02'',
              num_events_processed = 1,
              num_events_skipped = 1,
              tzinfo = ''UTC'',
              num_batches = 1,
              start_time = ''1970-01-03 00:00:00'',
              end_time = ''1970-01-03 00:00:00'',
              elapsed_time = ''0:00:00'',
              rejected_events = []\<rparr>,
             \<lparr>log_group_name = ''DataVirtualityETLLogGroup'',
              log_stream_name = ''dv-server.log-1970-01-03'',
              server_log_base_file_path = ''server.log'',
              processed_server_log_file_path = ''server.log'',
              date_used = ''1970-01-03'',
              num_events_processed = 2,
              num_events_skipped = 0,
              tzinfo = ''UTC'',
              num_batches = 1,
              start_time = ''1970-01-03 00:00:00'',
              end_time = ''1970-01-03 00:00:00'',
              elapsed_time = ''0:00:00'',
              rejected_events = []\<rparr>], 2)"
proof -
  have h1: "strptime_date example_host (date_used example_checkpoint) = Inr 2"
    by (simp add: example_host_def example_checkpoint_def)
  have h2: "(2::nat) < date_today example_host 0"
    by (simp add: example_host_def)
  have h3: "ZoneInfo example_host (tzinfo example_checkpoint) = Inr ()"
    by (simp add: example_host_def example_checkpoint_def)
  have h4: "isfile example_host ''server.log.1970-01-02'' 0"
    by (simp add: example_host_def)
  have c: "server_log_base_file_path example_checkpoint = ''server.log''"
    "date_used example_checkpoint = ''1970-01-02''"
    "num_events_processed example_checkpoint + num_events_skipped example_checkpoint = 1"
    "date_today example_host 0 = 3"
    by (simp_all add: example_checkpoint_def example_host_def)
  from log_auto_rotation [OF h1 h2 h3] h1 h2 h3 h4 show ?thesis
    by (simp add: c example_rotated_run example_live_run)
qed

text \<open>
  What the check of \<^verbatim>\<open>create_batches\<close> gives in its own measure, the \<^verbatim>\<open>len\<close> of the messages:
  the batches returned keep both limits and concatenate to the input; a batch built
  beyond a limit makes the call raise, and \<^verbatim>\<open>process_log_file\<close> then ends with that exception
  and the world as it was, before the client is made.
\<close>

lemma create_batches_checked:
  "(create_batches events = Inr bs \<longrightarrow>
      (\<forall>b \<in> set bs. length b \<le> MAX_EVENTS \<and> batch_size b \<le> MAX_BYTES) \<and> concat bs = events)
   \<and> ((\<exists>b \<in> set (constructed_batches events). MAX_EVENTS < length b \<or> MAX_BYTES < batch_size b)
        \<longrightarrow> create_batches events = Inl AssertionError)
   \<and> (open_lines host path w = Inr f
        \<and> list_of_generator (generate_dicts (local_to_utc_timestamp host) f d skip tz) = Inr generated
        \<and> create_batches (sort_key timestamp generated) = Inl e
        \<longrightarrow> e = AssertionError
          \<and> process_log_file host skip tz d base path stream_base grp w = (Inl AssertionError, w))"
proof -
  have a: "(\<forall>b \<in> set bs. length b \<le> MAX_EVENTS \<and> batch_size b \<le> MAX_BYTES) \<and> concat bs = events"
    if "create_batches events = Inr bs"
    using that by (auto simp: create_batches_Inr_iff concat_constructed_batches)
  have err: "e' = AssertionError" if "create_batches evs = Inl e'" for evs e'
    using that
    by (auto simp: create_batches_def test_batches_def Let_def split: sum.splits if_splits)
  have b: "create_batches events = Inl AssertionError"
    if "\<exists>b \<in> set (constructed_batches events). MAX_EVENTS < length b \<or> MAX_BYTES < batch_size b"
  proof (cases "create_batches events")
    case (Inl e')
    with err show ?thesis by simp
  next
    case (Inr bs')
    with that show ?thesis
      by (auto simp: create_batches_Inr_iff)
  qed
  have c: "e = AssertionError
      \<and> process_log_file host skip tz d base path stream_base grp w = (Inl AssertionError, w)"
    if "open_lines host path w = Inr f"
      and "list_of_generator (generate_dicts (local_to_utc_timestamp host) f d skip tz) = Inr generated"
      and "create_batches (sort_key timestamp generated) = Inl e"
    using err [OF that(3)] process_log_file_create_batches_fails [OF that] by simp
  from a b c show ?thesis by blast
qed

lemma utf8_length_replicate:
  "utf8_length (replicate n c) = n * (if (of_char c :: nat) < 128 then 1 else 2)"
  by (simp add: utf8_length_def sum_list_replicate)

lemma utf8_length_ascii:
  "\<forall>c \<in> set s. (of_char c :: nat) < 128 \<Longrightarrow> utf8_length s = length s"
  by (induction s) (simp_all add: utf8_length_def)

text \<open>
  Claim C7, at an input where it fails. The claim: when \<^verbatim>\<open>create_batches\<close> returns, its
  batches satisfy the count and the byte-size limit. The limit of the service is on the
  bytes of the messages in UTF-8, as the comment in the code says, but \<^verbatim>\<open>test_batches\<close> adds
  up \<^verbatim>\<open>len(event['message'])\<close>, the number of characters. For one event whose message is
  1,048,550 times the letter a-umlaut (code point 228, two bytes in UTF-8) the check counts
  1,048,576 and passes, \<^verbatim>\<open>create_batches\<close> returns the batch, and the batch is 2,097,126
  bytes.
\<close>

theorem create_batches_counts_characters:
  "create_batches [\<lparr>timestamp = 0, message = replicate 1048550 (CHR 0xE4)\<rparr>]
     = Inr [[\<lparr>timestamp = 0, message = replicate 1048550 (CHR 0xE4)\<rparr>]]
   \<and> batch_size [\<lparr>timestamp = 0, message = replicate 1048550 (CHR 0xE4)\<rparr>] = 1048576
   \<and> batch_bytes [\<lparr>timestamp = 0, message = replicate 1048550 (CHR 0xE4)\<rparr>] = 2097126
   \<and> MAX_BYTES < batch_bytes [\<lparr>timestamp = 0, message = replicate 1048550 (CHR 0xE4)\<rparr>]"
  by (simp add: create_batches_def constructed_batches_def batch_step_def test_batches_def
      test_batch_def EVENT_OVERHEAD_def MAX_BYTES_def MAX_EVENTS_def Let_def batch_size_def
      batch_bytes_def utf8_length_replicate)

end
